theory Spec2Isabelle
  imports Complex_Main "HOL-Library.AList" "HOL-Library.Log_Nat"
begin

section \<open>Zenith digital planner: the derivation layer\<close>

text \<open>
  The planner is JavaScript. Counts, day numbers, millisecond time values, years and
  months are modelled by \<^typ>\<open>int\<close>. Where the code divides, its numbers are IEEE 754
  doubles (subsection Numbers): the quotient is rounded to 53 bits, and a division by
  zero gives an infinity or \<open>NaN\<close>.
\<close>

subsection \<open>The built-in \<open>Date\<close>\<close>

text \<open>
  A \<open>Date\<close> object is its time value: the milliseconds since 1970-01-01T00:00Z. The
  functions below are the abstract operations of ECMA-262 (section "Date Objects") under
  their names there. Time values are unbounded (no \<open>Invalid Date\<close> beyond 8.64e15 ms).
\<close>

definition msPerDay :: int where
  "msPerDay = 86400000"

definition Day :: "int \<Rightarrow> int" where
  "Day t = t div msPerDay"

definition TimeWithinDay :: "int \<Rightarrow> int" where
  "TimeWithinDay t = t mod msPerDay"

definition DaysInYear :: "int \<Rightarrow> int" where
  "DaysInYear y =
     (if y mod 4 \<noteq> 0 then 365
      else if y mod 100 \<noteq> 0 then 366
      else if y mod 400 \<noteq> 0 then 365
      else 366)"

definition DayFromYear :: "int \<Rightarrow> int" where
  "DayFromYear y =
     365 * (y - 1970) + (y - 1969) div 4 - (y - 1901) div 100 + (y - 1601) div 400"

text \<open>
  ECMA-262 specifies \<open>YearFromTime(t)\<close> as the largest \<open>y\<close> with
  \<open>TimeFromYear(y) \<le> t\<close>. \<open>YearFromDay\<close> computes it from the day number: an
  estimate from the mean length of a year, corrected by at most one year
  (lemmas \<open>YearFromDay_bounds\<close> and \<open>YearFromDay_unique\<close> show it is that year).
\<close>

definition YearFromDay :: "int \<Rightarrow> int" where
  "YearFromDay d =
     (let y = 1970 + (d * 400) div 146097
      in if d < DayFromYear y then y - 1
         else if DayFromYear (y + 1) \<le> d then y + 1
         else y)"

definition YearFromTime :: "int \<Rightarrow> int" where
  "YearFromTime t = YearFromDay (Day t)"

definition InLeapYear :: "int \<Rightarrow> int" where
  "InLeapYear t = (if DaysInYear (YearFromTime t) = 366 then 1 else 0)"

definition DayWithinYear :: "int \<Rightarrow> int" where
  "DayWithinYear t = Day t - DayFromYear (YearFromTime t)"

definition MonthFromTime :: "int \<Rightarrow> int" where
  "MonthFromTime t =
     (let d = DayWithinYear t; leap = InLeapYear t
      in if d < 31 then 0
         else if d < 59 + leap then 1
         else if d < 90 + leap then 2
         else if d < 120 + leap then 3
         else if d < 151 + leap then 4
         else if d < 181 + leap then 5
         else if d < 212 + leap then 6
         else if d < 243 + leap then 7
         else if d < 273 + leap then 8
         else if d < 304 + leap then 9
         else if d < 334 + leap then 10
         else 11)"

definition DateFromTime :: "int \<Rightarrow> int" where
  "DateFromTime t =
     (let d = DayWithinYear t; leap = InLeapYear t; m = MonthFromTime t
      in if m = 0 then d + 1
         else if m = 1 then d - 30
         else if m = 2 then d - 58 - leap
         else if m = 3 then d - 89 - leap
         else if m = 4 then d - 119 - leap
         else if m = 5 then d - 150 - leap
         else if m = 6 then d - 180 - leap
         else if m = 7 then d - 211 - leap
         else if m = 8 then d - 242 - leap
         else if m = 9 then d - 272 - leap
         else if m = 10 then d - 303 - leap
         else d - 333 - leap)"

definition WeekDay :: "int \<Rightarrow> int" where
  "WeekDay t = (Day t + 4) mod 7"

text \<open>
  The host's time zone gives the offset of local time from UTC, in milliseconds:
  \<open>tzaUTC z t\<close> is \<open>LocalTZA(t, true)\<close>, the offset in effect at the UTC time \<open>t\<close>, and
  \<open>tzaLocal z t\<close> is \<open>LocalTZA(t, false)\<close>, the offset a local time \<open>t\<close> is read with.
  \<open>fixed c\<close> is a zone without transitions (UTC is \<open>fixed 0\<close>).
  \<open>eastern2026\<close> is US Eastern time (\<open>America/New_York\<close>) around the end of daylight
  saving on 1 November 2026: UTC-4 before 06:00Z of that day and UTC-5 from then on; a
  local time before 02:00 of that day is read with the offset before the transition, as
  ECMA-262 asks for a repeated local time. The transitions in March are left out, so
  it is that zone for the instants from 2026-03-08T07:00Z to 2027-03-14T07:00Z.
\<close>

record zone =
  tzaUTC :: "int \<Rightarrow> int"
  tzaLocal :: "int \<Rightarrow> int"

definition fixed :: "int \<Rightarrow> zone" where
  "fixed c = \<lparr>tzaUTC = (\<lambda>t. c), tzaLocal = (\<lambda>t. c)\<rparr>"

definition eastern2026 :: zone where
  "eastern2026 =
     \<lparr>tzaUTC = (\<lambda>t. if t < 1793512800000 then - 14400000 else - 18000000),
      tzaLocal = (\<lambda>t. if t < 1793512800000 - 14400000 then - 14400000 else - 18000000)\<rparr>"

definition LocalTime :: "zone \<Rightarrow> int \<Rightarrow> int" where
  "LocalTime tz t = t + tzaUTC tz t"

definition UTC :: "zone \<Rightarrow> int \<Rightarrow> int" where
  "UTC tz t = t - tzaLocal tz t"

definition MakeTime :: "int \<Rightarrow> int \<Rightarrow> int \<Rightarrow> int \<Rightarrow> int" where
  "MakeTime hour minute sec ms = hour * 3600000 + minute * 60000 + sec * 1000 + ms"

text \<open>
  \<open>MakeDay\<close> asks for a time \<open>t\<close> on the first of month \<open>mn\<close> of year \<open>ym\<close>;
  \<open>monthStart\<close> is the day within the year at which a month starts, so that
  \<open>DayFromYear ym + monthStart mn ym\<close> is the day of that \<open>t\<close>.
\<close>

definition monthStart :: "int \<Rightarrow> int \<Rightarrow> int" where
  "monthStart mn ym =
     (let leap = (if DaysInYear ym = 366 then 1 else 0)
      in if mn = 0 then 0
         else if mn = 1 then 31
         else if mn = 2 then 59 + leap
         else if mn = 3 then 90 + leap
         else if mn = 4 then 120 + leap
         else if mn = 5 then 151 + leap
         else if mn = 6 then 181 + leap
         else if mn = 7 then 212 + leap
         else if mn = 8 then 243 + leap
         else if mn = 9 then 273 + leap
         else if mn = 10 then 304 + leap
         else 334 + leap)"

definition MakeDay :: "int \<Rightarrow> int \<Rightarrow> int \<Rightarrow> int" where
  "MakeDay year month date =
     (let ym = year + month div 12; mn = month mod 12
      in DayFromYear ym + monthStart mn ym + date - 1)"

definition MakeDate :: "int \<Rightarrow> int \<Rightarrow> int" where
  "MakeDate day time = day * msPerDay + time"

text \<open>
  The constructor \<open>new Date(year, month, date)\<close>: local midnight of that day; a year from
  0 to 99 means 1900 + year.
\<close>

definition Date_ymd :: "zone \<Rightarrow> int \<Rightarrow> int \<Rightarrow> int \<Rightarrow> int" where
  "Date_ymd tz year month date =
     (let yr = (if 0 \<le> year \<and> year \<le> 99 then 1900 + year else year)
      in UTC tz (MakeDate (MakeDay yr month date) (MakeTime 0 0 0 0)))"



definition getDate :: "zone \<Rightarrow> int \<Rightarrow> int" where
  "getDate tz t = DateFromTime (LocalTime tz t)"

definition getDay :: "zone \<Rightarrow> int \<Rightarrow> int" where
  "getDay tz t = WeekDay (LocalTime tz t)"

definition setDate :: "zone \<Rightarrow> int \<Rightarrow> int \<Rightarrow> int" where
  "setDate tz t dt =
     (let lt = LocalTime tz t
      in UTC tz (MakeDate (MakeDay (YearFromTime lt) (MonthFromTime lt) dt) (TimeWithinDay lt)))"

definition setHours :: "zone \<Rightarrow> int \<Rightarrow> int \<Rightarrow> int \<Rightarrow> int \<Rightarrow> int \<Rightarrow> int" where
  "setHours tz t hour minute sec ms =
     UTC tz (MakeDate (Day (LocalTime tz t)) (MakeTime hour minute sec ms))"

text \<open>
  An ISO date, the string \<open>YYYY-MM-DD\<close>, is modelled by the number of its day (days since
  1970-01-01): for the four-digit years the format is fixed-width, so that equality and
  the order of the strings are equality and the order of the day numbers.
  \<open>Date_iso s\<close> is \<open>new Date(s)\<close> for such a string (midnight UTC of the day) and
  \<open>toISODate\<close> is \<open>toISOString().split('T')[0]\<close> (the UTC day of a time value).
\<close>

type_synonym isodate = int

definition Date_iso :: "isodate \<Rightarrow> int" where
  "Date_iso s = MakeDate s 0"

definition toISODate :: "int \<Rightarrow> isodate" where
  "toISODate t = Day t"

subsection \<open>Date utilities (\<open>js/utils.js\<close>)\<close>

text \<open>
  \<^verbatim>\<open>
  formatDateStr(date) { return date.toISOString().split('T')[0]; }
  isToday(date) {
      const d = typeof date === 'string' ? new Date(date) : date;
      const today = new Date();
      return d.toDateString() === today.toDateString();
  }
  \<close>
  \<open>toDateString\<close> prints the local calendar day, so two dates give the same string
  exactly when they are on the same local day. \<open>now\<close> is the time value of \<open>new Date()\<close>.
\<close>

definition formatDateStr :: "int \<Rightarrow> isodate" where
  "formatDateStr date = toISODate date"

definition isToday :: "zone \<Rightarrow> int \<Rightarrow> int \<Rightarrow> bool" where
  "isToday tz now d = (Day (LocalTime tz d) = Day (LocalTime tz now))"

text \<open>
  \<^verbatim>\<open>
  getWeekStart(date) {
      const d = new Date(date);
      const day = d.getDay();
      const diff = d.getDate() - day + (day === 0 ? -6 : 1);
      d.setDate(diff);
      d.setHours(0, 0, 0, 0);
      return d;
  }
  \<close>
\<close>

definition getWeekStart :: "zone \<Rightarrow> int \<Rightarrow> int" where
  "getWeekStart tz date =
     (let d = date;
          day = getDay tz d;
          diff = getDate tz d - day + (if day = 0 then - 6 else 1);
          d1 = setDate tz d diff;
          d2 = setHours tz d1 0 0 0 0
      in d2)"

text \<open>
  \<^verbatim>\<open>
  getCalendarDays(year, month) {
      const days = [];
      const firstDay = new Date(year, month, 1);
      const lastDay = new Date(year, month + 1, 0);
      let startDay = firstDay.getDay() - 1;
      if (startDay === -1) startDay = 6;
      for (let i = startDay - 1; i >= 0; i--) {
          const date = new Date(year, month, -i);
          days.push({ date, dateStr: this.formatDateStr(date), dayNum: date.getDate(),
                      isOtherMonth: true, isToday: false });
      }
      for (let i = 1; i <= lastDay.getDate(); i++) {
          const date = new Date(year, month, i);
          days.push({ date, dateStr: this.formatDateStr(date), dayNum: i,
                      isOtherMonth: false, isToday: this.isToday(date) });
      }
      const remaining = 42 - days.length;
      for (let i = 1; i <= remaining; i++) {
          const date = new Date(year, month + 1, i);
          days.push({ date, dateStr: this.formatDateStr(date), dayNum: i,
                      isOtherMonth: true, isToday: false });
      }
      return days;
  }
  \<close>
  A day cell is a record (the fields carry the prefix \<open>cell_\<close>); each counted loop that
  pushes one cell per index is the \<open>map\<close> of its body over the indices in the order the
  loop visits them.
\<close>

record cell =
  cell_date :: int
  cell_dateStr :: isodate
  cell_dayNum :: int
  cell_isOtherMonth :: bool
  cell_isToday :: bool

definition getCalendarDays :: "zone \<Rightarrow> int \<Rightarrow> int \<Rightarrow> int \<Rightarrow> cell list" where
  "getCalendarDays tz now year month =
     (let firstDay = Date_ymd tz year month 1;
          lastDay = Date_ymd tz year (month + 1) 0;
          startDay0 = getDay tz firstDay - 1;
          startDay = (if startDay0 = - 1 then 6 else startDay0);
          days1 = map (\<lambda>i. let date = Date_ymd tz year month (- i)
                          in \<lparr>cell_date = date, cell_dateStr = formatDateStr date,
                              cell_dayNum = getDate tz date,
                              cell_isOtherMonth = True, cell_isToday = False\<rparr>)
                    (rev [0..startDay - 1]);
          days2 = days1 @
                  map (\<lambda>i. let date = Date_ymd tz year month i
                          in \<lparr>cell_date = date, cell_dateStr = formatDateStr date,
                              cell_dayNum = i,
                              cell_isOtherMonth = False, cell_isToday = isToday tz now date\<rparr>)
                    [1..getDate tz lastDay];
          remaining = 42 - int (length days2);
          days3 = days2 @
                  map (\<lambda>i. let date = Date_ymd tz year (month + 1) i
                          in \<lparr>cell_date = date, cell_dateStr = formatDateStr date,
                              cell_dayNum = i,
                              cell_isOtherMonth = True, cell_isToday = False\<rparr>)
                    [1..remaining]
      in days3)"


subsection \<open>Numbers\<close>

text \<open>
  A JavaScript number is an IEEE 754 double: a finite value, an infinity or \<open>NaN\<close>. A
  finite double is modelled by the rational it denotes (the zero is \<open>+0\<close>; \<open>-0\<close> is not
  told apart from it). \<open>fl\<close> rounds an exact result to the nearest double, a tie going to
  the even significand: 53 significant bits, the exponent \<open>expo x\<close> (the floor of the
  binary logarithm of \<open>\<bar>x\<bar>\<close>) from -1022, below which the spacing stays \<open>2 powi - 1074\<close>
  (the subnormal numbers), up to 1023; a rounded magnitude of \<open>2 powi 1024\<close> or more is
  an infinity.
\<close>

datatype number = Fin rat | PosInf | NegInf | NaN

definition expo :: "rat \<Rightarrow> int" where
  "expo x =
     (let (a, b) = quotient_of \<bar>x\<bar>; k = bitlen a - bitlen b
      in if 2 powi k \<le> \<bar>x\<bar> then k else k - 1)"

definition roundTiesToEven :: "rat \<Rightarrow> int" where
  "roundTiesToEven x =
     (let n = \<lfloor>x\<rfloor>; d = x - of_int n
      in if d < 1 / 2 \<or> (d = 1 / 2 \<and> even n) then n else n + 1)"

definition fl :: "rat \<Rightarrow> number" where
  "fl x =
     (if x = 0 then Fin 0
      else let e = max (expo x) (- 1022);
               ulp = 2 powi (e - 52);
               y = of_int (roundTiesToEven (x / ulp)) * ulp
           in if 2 powi 1024 \<le> y then PosInf
              else if y \<le> - (2 powi 1024) then NegInf
              else Fin y)"

text \<open>
  The operators \<open>*\<close> and \<open>/\<close> (\<open>Number::multiply\<close>, \<open>Number::divide\<close> of ECMA-262) and the
  comparison \<open><=\<close>, which is false as soon as an operand is \<open>NaN\<close>.
\<close>

definition negative :: "number \<Rightarrow> bool" where
  "negative x = (case x of Fin a \<Rightarrow> a < 0 | NegInf \<Rightarrow> True | _ \<Rightarrow> False)"

definition infinity :: "bool \<Rightarrow> number" where
  "infinity neg = (if neg then NegInf else PosInf)"

definition times_number :: "number \<Rightarrow> number \<Rightarrow> number" where
  "times_number x y =
     (if x = NaN \<or> y = NaN then NaN
      else case (x, y) of
             (Fin a, Fin b) \<Rightarrow> fl (a * b)
           | _ \<Rightarrow> if x = Fin 0 \<or> y = Fin 0 then NaN
                  else infinity (negative x \<noteq> negative y))"

definition divide_number :: "number \<Rightarrow> number \<Rightarrow> number" where
  "divide_number x y =
     (if x = NaN \<or> y = NaN then NaN
      else case (x, y) of
             (Fin a, Fin b) \<Rightarrow>
               if b = 0 then (if a = 0 then NaN else infinity (a < 0)) else fl (a / b)
           | (Fin a, _) \<Rightarrow> Fin 0
           | (_, Fin b) \<Rightarrow> infinity (negative x \<noteq> negative y)
           | _ \<Rightarrow> NaN)"


text \<open>
  \<open>Math.round\<close>: the nearest integer, a tie going up; an infinity and \<open>NaN\<close> are returned
  as they are.
\<close>

definition Math_round :: "number \<Rightarrow> number" where
  "Math_round x = (case x of Fin a \<Rightarrow> Fin (of_int \<lfloor>a + 1 / 2\<rfloor>) | _ \<Rightarrow> x)"

subsection \<open>Calculation utilities (\<open>js/utils.js\<close>)\<close>




subsection \<open>Habit streaks (storage module)\<close>

text \<open>
  \<^verbatim>\<open>
  calculateStreak(completedDates) {
      if (!completedDates || completedDates.length === 0) return 0;
      const sortedDates = [...completedDates].sort().reverse();
      const today = new Date().toISOString().split('T')[0];
      const yesterday = new Date(Date.now() - 86400000).toISOString().split('T')[0];
      if (sortedDates[0] !== today && sortedDates[0] !== yesterday) {
          return 0;
      }
      let streak = 1;
      let currentDate = new Date(sortedDates[0]);
      for (let i = 1; i < sortedDates.length; i++) {
          const prevDate = new Date(currentDate);
          prevDate.setDate(prevDate.getDate() - 1);
          if (sortedDates[i] === prevDate.toISOString().split('T')[0]) {
              streak++;
              currentDate = prevDate;
          } else {
              break;
          }
      }
      return streak;
  }
  \<close>
  \<open>now\<close> is the time value of the clock (\<open>new Date()\<close>, \<open>Date.now()\<close>) at the call. The
  argument is an array of ISO dates (a missing array returns 0 as the empty one does).
  \<open>streak_loop\<close> is the \<open>for\<close> loop over \<open>sortedDates[1..]\<close>, with \<open>currentDate\<close>
  and \<open>streak\<close> as its state; \<open>break\<close> returns the count.
\<close>

fun streak_loop :: "zone \<Rightarrow> int \<Rightarrow> int \<Rightarrow> isodate list \<Rightarrow> int" where
  "streak_loop tz currentDate streak [] = streak"
| "streak_loop tz currentDate streak (x # rest) =
     (let prevDate = setDate tz currentDate (getDate tz currentDate - 1)
      in if x = toISODate prevDate
         then streak_loop tz prevDate (streak + 1) rest
         else streak)"

definition calculateStreak :: "zone \<Rightarrow> int \<Rightarrow> isodate list \<Rightarrow> int" where
  "calculateStreak tz now completedDates =
     (if completedDates = [] then 0
      else let sortedDates = rev (sort completedDates);
               today = toISODate now;
               yesterday = toISODate (now - 86400000)
           in if sortedDates ! 0 \<noteq> today \<and> sortedDates ! 0 \<noteq> yesterday then 0
              else streak_loop tz (Date_iso (sortedDates ! 0)) 1 (tl sortedDates))"

text \<open>
  A habit, as the data model has it; the fields \<open>id\<close>, \<open>createdAt\<close>, \<open>name\<close> and
  \<open>frequency\<close> carry the prefix \<open>habit_\<close>. \<open>habit_partial\<close> is the argument of \<open>addHabit\<close>:
  an object that has some of the fields.
\<close>

record habit =
  habit_id :: string
  habit_createdAt :: string
  completedDates :: "isodate list"
  currentStreak :: int
  longestStreak :: int
  habit_name :: "string option"
  habit_frequency :: "string option"

record habit_partial =
  p_id :: "string option"
  p_createdAt :: "string option"
  p_completedDates :: "isodate list option"
  p_currentStreak :: "int option"
  p_longestStreak :: "int option"
  p_name :: "string option"
  p_frequency :: "string option"

text \<open>
  \<^verbatim>\<open>
  addHabit(habit) {
      const habits = this.getHabits();
      const newHabit = {
          id: this.generateId(),
          createdAt: new Date().toISOString(),
          completedDates: [],
          currentStreak: 0,
          longestStreak: 0,
          ...habit
      };
      habits.push(newHabit);
      this.set(this.KEYS.HABITS, habits);
      return newHabit;
  }
  \<close>
  The state is the habits collection (\<open>getHabits\<close> before, what \<open>set\<close> stores after);
  \<open>newId\<close> is the result of \<open>generateId()\<close> and \<open>nowISO\<close> the clock's ISO string. The
  spread \<open>...habit\<close> lets every field the argument has replace the default before it.
\<close>

definition addHabit :: "habit_partial \<Rightarrow> string \<Rightarrow> string \<Rightarrow> habit list \<Rightarrow> habit list \<times> habit" where
  "addHabit habit newId nowISO habits =
     (let newHabit =
            \<lparr>habit_id = (case p_id habit of Some v \<Rightarrow> v | None \<Rightarrow> newId),
             habit_createdAt = (case p_createdAt habit of Some v \<Rightarrow> v | None \<Rightarrow> nowISO),
             completedDates = (case p_completedDates habit of Some v \<Rightarrow> v | None \<Rightarrow> []),
             currentStreak = (case p_currentStreak habit of Some v \<Rightarrow> v | None \<Rightarrow> 0),
             longestStreak = (case p_longestStreak habit of Some v \<Rightarrow> v | None \<Rightarrow> 0),
             habit_name = p_name habit,
             habit_frequency = p_frequency habit\<rparr>
      in (habits @ [newHabit], newHabit))"

text \<open>
  \<^verbatim>\<open>
  toggleHabitCompletion(habitId, dateStr) {
      const habits = this.getHabits();
      const habit = habits.find(h => h.id === habitId);
      if (habit) {
          const index = habit.completedDates.indexOf(dateStr);
          if (index > -1) {
              habit.completedDates.splice(index, 1);
          } else {
              habit.completedDates.push(dateStr);
          }
          habit.currentStreak = this.calculateStreak(habit.completedDates);
          habit.longestStreak = Math.max(habit.longestStreak, habit.currentStreak);
          this.set(this.KEYS.HABITS, habits);
      }
      return habit;
  }
  \<close>
  \<open>toggleDate\<close> is the \<open>indexOf\<close>/\<open>splice\<close>/\<open>push\<close> step: the first occurrence of the date
  is removed, or the date is appended. \<open>find\<close> takes the first habit with the id, and the
  mutation of that object is the replacement of that element of the collection; the
  result \<open>None\<close> is \<open>undefined\<close>.
\<close>

definition toggleDate :: "isodate \<Rightarrow> isodate list \<Rightarrow> isodate list" where
  "toggleDate dateStr dates =
     (if dateStr \<in> set dates then remove1 dateStr dates else dates @ [dateStr])"

fun toggleHabitCompletion ::
  "zone \<Rightarrow> int \<Rightarrow> string \<Rightarrow> isodate \<Rightarrow> habit list \<Rightarrow> habit list \<times> habit option" where
  "toggleHabitCompletion tz now habitId dateStr [] = ([], None)"
| "toggleHabitCompletion tz now habitId dateStr (h # habits) =
     (if habit_id h = habitId
      then let h1 = h\<lparr>completedDates := toggleDate dateStr (completedDates h)\<rparr>;
               h2 = h1\<lparr>currentStreak := calculateStreak tz now (completedDates h1)\<rparr>;
               h3 = h2\<lparr>longestStreak := max (longestStreak h2) (currentStreak h2)\<rparr>
           in (h3 # habits, Some h3)
      else let (habits', r) = toggleHabitCompletion tz now habitId dateStr habits
           in (h # habits', r))"

text \<open>A sequence of \<open>toggleHabitCompletion\<close> calls, each with its clock, habit id and date.\<close>

fun toggles :: "zone \<Rightarrow> (int \<times> string \<times> isodate) list \<Rightarrow> habit list \<Rightarrow> habit list" where
  "toggles tz [] habits = habits"
| "toggles tz ((now, habitId, dateStr) # calls) habits =
     toggles tz calls (fst (toggleHabitCompletion tz now habitId dateStr habits))"

subsection \<open>Productivity statistics (storage module)\<close>

text \<open>
  \<^verbatim>\<open>
  getProductivityStats(startDate, endDate) {
      const habits = this.getHabits();
      ...
      let habitCompletions = 0;
      let habitPossible = 0;
      habits.forEach(habit => {
          habit.completedDates.forEach(date => {
              if (date >= startDate && date <= endDate) {
                  habitCompletions++;
              }
          });
          let current = new Date(startDate);
          const end = new Date(endDate);
          while (current <= end) {
              habitPossible++;
              current.setDate(current.getDate() + 1);
          }
      });
      ...
      return {
          ...
          habitCompletionRate: habitPossible > 0
              ? Math.round((habitCompletions / habitPossible) * 100)
              : 0,
          ...
      };
  }
  \<close>
  The model is the habit part of the function: the two counters and the field
  \<open>habitCompletionRate\<close> of the result. The fields computed from the tasks and the daily
  check-ins (\<open>totalTasks\<close>, \<open>completedTasks\<close>, \<open>completionRate\<close>, \<open>averageMood\<close>,
  \<open>focusHours\<close>) do not enter it and are left out. \<open>countDays\<close> is the \<open>while\<close> loop with
  its counter; whether it ends depends on the zone, so not returning is the value \<open>None\<close>
  (\<open>countDays_fixed\<close> shows that it returns in a zone with a fixed offset). The counters
  are integers and enter the division as the doubles of their values.
\<close>

partial_function (option) countDays :: "zone \<Rightarrow> int \<Rightarrow> int \<Rightarrow> int \<Rightarrow> int option" where
  "countDays tz current end habitPossible =
     (if current \<le> end
      then countDays tz (setDate tz current (getDate tz current + 1)) end (habitPossible + 1)
      else Some habitPossible)"

fun habits_forEach ::
  "zone \<Rightarrow> isodate \<Rightarrow> isodate \<Rightarrow> habit list \<Rightarrow> int \<times> int \<Rightarrow> (int \<times> int) option" where
  "habits_forEach tz startDate endDate [] (habitCompletions, habitPossible) =
     Some (habitCompletions, habitPossible)"
| "habits_forEach tz startDate endDate (habit # rest) (habitCompletions, habitPossible) =
     (let habitCompletions' =
            fold (\<lambda>date c. if startDate \<le> date \<and> date \<le> endDate then c + 1 else c)
              (completedDates habit) habitCompletions
      in case countDays tz (Date_iso startDate) (Date_iso endDate) habitPossible of
           None \<Rightarrow> None
         | Some habitPossible' \<Rightarrow>
             habits_forEach tz startDate endDate rest (habitCompletions', habitPossible'))"

record stats =
  habitCompletionRate :: number

definition getProductivityStats :: "zone \<Rightarrow> isodate \<Rightarrow> isodate \<Rightarrow> habit list \<Rightarrow> stats option" where
  "getProductivityStats tz startDate endDate habits =
     (case habits_forEach tz startDate endDate habits (0, 0) of
        None \<Rightarrow> None
      | Some (habitCompletions, habitPossible) \<Rightarrow>
          Some \<lparr>habitCompletionRate =
                  (if habitPossible > 0
                   then Math_round
                          (times_number
                             (divide_number (Fin (of_int habitCompletions))
                                (Fin (of_int habitPossible)))
                             (Fin 100))
                   else Fin 0)\<rparr>)"

text \<open>
  The words of the specification: a habit's completions in the range, and the days of
  the range.
\<close>

definition completionsInRange :: "isodate \<Rightarrow> isodate \<Rightarrow> habit \<Rightarrow> int" where
  "completionsInRange startDate endDate habit =
     int (length (filter (\<lambda>date. startDate \<le> date \<and> date \<le> endDate) (completedDates habit)))"

definition daysInRange :: "isodate \<Rightarrow> isodate \<Rightarrow> int" where
  "daysInRange startDate endDate = (if startDate \<le> endDate then endDate - startDate + 1 else 0)"

subsection \<open>The document store and the task repository (storage module)\<close>

text \<open>
  What the store holds is JSON: \<open>set\<close> writes \<open>JSON.stringify(data)\<close> and \<open>get\<close> reads it
  back with \<open>JSON.parse\<close>, so an item of \<open>localStorage\<close> is modelled by the JSON value it
  encodes, and the store by a map from keys to such values. An object is the list of its
  properties in insertion order, with distinct keys; a JSON text (the string
  \<open>exportData\<close> returns, the one \<open>importData\<close> is given) is modelled by the value it
  parses to, and a text that does not parse by \<open>None\<close>. Writes succeed (the quota error
  that \<open>set\<close> swallows is not modelled).
\<close>

datatype json =
    JNull
  | JBool bool
  | JNum rat
  | JStr string
  | JArr "json list"
  | JObj "(string \<times> json) list"

type_synonym obj = "(string \<times> json) list"

type_synonym store = "string \<Rightarrow> json option"

text \<open>The \<open>TypeError\<close> of reading a property of \<open>null\<close> or calling a method that is missing.\<close>

datatype error = TypeError

text \<open>
  JavaScript truthiness of a JSON value; \<open>truthy_prop\<close> is that of a property read, where
  \<open>None\<close> is \<open>undefined\<close>.
\<close>

fun truthy :: "json \<Rightarrow> bool" where
  "truthy JNull = False"
| "truthy (JBool b) = b"
| "truthy (JNum n) = (n \<noteq> 0)"
| "truthy (JStr s) = (s \<noteq> [])"
| "truthy (JArr xs) = True"
| "truthy (JObj kvs) = True"

definition truthy_prop :: "json option \<Rightarrow> bool" where
  "truthy_prop v = (case v of None \<Rightarrow> False | Some x \<Rightarrow> truthy x)"

text \<open>
  \<open>get_prop t k\<close> is the property read \<open>t.k\<close>, for the names read here (\<open>id\<close>,
  \<open>completed\<close>, \<open>completedAt\<close>), which no array, string, number or boolean has: \<open>None\<close>
  is \<open>undefined\<close>, and reading from \<open>null\<close> throws.
  \<open>entries\<close> are the own properties a spread \<open>...t\<close> copies (an object's; the values
  without properties of their own give none).
  \<open>object_literal\<close> builds the object of a literal \<open>{k1: v1, ..., ...rest}\<close> from its
  properties in order: a later property with the key of an earlier one replaces its
  value and keeps its position.
\<close>

fun get_prop :: "json \<Rightarrow> string \<Rightarrow> error + json option" where
  "get_prop JNull k = Inl TypeError"
| "get_prop (JObj kvs) k = Inr (map_of kvs k)"
| "get_prop v k = Inr None"

fun entries :: "json \<Rightarrow> obj" where
  "entries (JObj kvs) = kvs"
| "entries v = []"

definition object_literal :: "(string \<times> json) list \<Rightarrow> obj" where
  "object_literal kvs = fold (\<lambda>(k, v). AList.update k v) kvs []"

text \<open>
  \<^verbatim>\<open>
  KEYS: { USER: 'zenith_user', TASKS: 'zenith_tasks', HABITS: 'zenith_habits',
          GOALS: 'zenith_goals', TIME_BLOCKS: 'zenith_timeblocks',
          DAILY_DATA: 'zenith_daily_data', WEEKLY_OBJECTIVES: 'zenith_weekly_objectives',
          SETTINGS: 'zenith_settings', THEME: 'zenith_theme' },
  get(key) {
      try {
          const data = localStorage.getItem(key);
          return data ? JSON.parse(data) : null;
      } catch (error) { ...; return null; }
  }
  set(key, data) {
      try { localStorage.setItem(key, JSON.stringify(data)); } catch (error) { ... }
  }
  getTasks() { return this.get(this.KEYS.TASKS) || []; }
  \<close>
  \<open>KEYS\<close> is the object with its property names and their values, the storage keys.
  \<open>get\<close> and \<open>set\<close> are \<open>Storage_get\<close> and \<open>Storage_set\<close> here.
\<close>

definition KEYS :: "(string \<times> string) list" where
  "KEYS =
     [(''USER'', ''zenith_user''),
      (''TASKS'', ''zenith_tasks''),
      (''HABITS'', ''zenith_habits''),
      (''GOALS'', ''zenith_goals''),
      (''TIME_BLOCKS'', ''zenith_timeblocks''),
      (''DAILY_DATA'', ''zenith_daily_data''),
      (''WEEKLY_OBJECTIVES'', ''zenith_weekly_objectives''),
      (''SETTINGS'', ''zenith_settings''),
      (''THEME'', ''zenith_theme'')]"

definition KEYS_TASKS :: string where
  "KEYS_TASKS = ''zenith_tasks''"

definition Storage_get :: "store \<Rightarrow> string \<Rightarrow> json" where
  "Storage_get s key = (case s key of Some data \<Rightarrow> data | None \<Rightarrow> JNull)"

definition Storage_set :: "string \<Rightarrow> json \<Rightarrow> store \<Rightarrow> store" where
  "Storage_set key data s = s(key \<mapsto> data)"

definition getTasks :: "store \<Rightarrow> json" where
  "getTasks s = (let v = Storage_get s KEYS_TASKS in if truthy v then v else JArr [])"

text \<open>
  \<^verbatim>\<open>
  addTask(task) {
      const tasks = this.getTasks();
      const newTask = {
          id: this.generateId(),
          createdAt: new Date().toISOString(),
          completed: false,
          completedAt: null,
          ...task
      };
      tasks.push(newTask);
      this.set(this.KEYS.TASKS, tasks);
      return newTask;
  }
  \<close>
  \<open>newId\<close> is the result of \<open>generateId()\<close> and \<open>nowISO\<close> that of
  \<open>new Date().toISOString()\<close>. The result is the returned object and the store after the
  call; a stored value that is not an array has no \<open>push\<close> (nor \<open>findIndex\<close>).
\<close>

definition addTask :: "obj \<Rightarrow> string \<Rightarrow> string \<Rightarrow> store \<Rightarrow> error + json \<times> store" where
  "addTask task newId nowISO s =
     (case getTasks s of
        JArr tasks \<Rightarrow>
          (let newTask = JObj (object_literal
                 ([(''id'', JStr newId),
                   (''createdAt'', JStr nowISO),
                   (''completed'', JBool False),
                   (''completedAt'', JNull)] @ task))
           in Inr (newTask, Storage_set KEYS_TASKS (JArr (tasks @ [newTask])) s))
      | _ \<Rightarrow> Inl TypeError)"

text \<open>
  \<^verbatim>\<open>
  updateTask(id, updates) {
      const tasks = this.getTasks();
      const index = tasks.findIndex(t => t.id === id);
      if (index !== -1) {
          tasks[index] = { ...tasks[index], ...updates };
          if (updates.completed && !tasks[index].completedAt) {
              tasks[index].completedAt = new Date().toISOString();
          }
          this.set(this.KEYS.TASKS, tasks);
          return tasks[index];
      }
      return null;
  }
  \<close>
  \<open>findIndex_id\<close> is \<open>findIndex(t => t.id === id)\<close> for a string \<open>id\<close>: the first index
  whose element has that \<open>id\<close>, or -1.
\<close>

fun findIndex_id :: "string \<Rightarrow> json list \<Rightarrow> error + int" where
  "findIndex_id ident [] = Inr (- 1)"
| "findIndex_id ident (t # ts) =
     (case get_prop t ''id'' of
        Inl e \<Rightarrow> Inl e
      | Inr v \<Rightarrow>
          if v = Some (JStr ident) then Inr 0
          else (case findIndex_id ident ts of
                  Inl e \<Rightarrow> Inl e
                | Inr i \<Rightarrow> Inr (if i = - 1 then - 1 else i + 1)))"

definition updateTask :: "string \<Rightarrow> obj \<Rightarrow> string \<Rightarrow> store \<Rightarrow> error + json \<times> store" where
  "updateTask ident updates nowISO s =
     (case getTasks s of
        JArr tasks \<Rightarrow>
          (case findIndex_id ident tasks of
             Inl e \<Rightarrow> Inl e
           | Inr index \<Rightarrow>
               if index \<noteq> - 1
               then let t1 = object_literal (entries (tasks ! nat index) @ updates);
                        t2 = (if truthy_prop (map_of updates ''completed'')
                                 \<and> \<not> truthy_prop (map_of t1 ''completedAt'')
                              then AList.update ''completedAt'' (JStr nowISO) t1
                              else t1);
                        tasks' = tasks[nat index := JObj t2]
                    in Inr (JObj t2, Storage_set KEYS_TASKS (JArr tasks') s)
               else Inr (JNull, s))
      | _ \<Rightarrow> Inl TypeError)"

text \<open>
  \<^verbatim>\<open>
  exportData() {
      const data = {};
      Object.keys(this.KEYS).forEach(key => {
          data[key] = this.get(this.KEYS[key]);
      });
      return JSON.stringify(data, null, 2);
  }
  importData(jsonString) {
      try {
          const data = JSON.parse(jsonString);
          Object.keys(data).forEach(key => {
              if (Object.values(this.KEYS).includes(key)) {
                  this.set(key, data[key]);
              }
          });
          return true;
      } catch (error) { ...; return false; }
  }
  \<close>
  \<open>Object.keys\<close> of \<open>null\<close> throws, which \<open>importData\<close> catches; the keys of an array or a
  string are indices and a number or a boolean has none, so none of them is a storage
  key.
\<close>

definition exportData :: "store \<Rightarrow> json" where
  "exportData s = JObj (object_literal (map (\<lambda>(name, key). (name, Storage_get s key)) KEYS))"

definition importData :: "json option \<Rightarrow> store \<Rightarrow> bool \<times> store" where
  "importData parsed s =
     (case parsed of
        None \<Rightarrow> (False, s)
      | Some JNull \<Rightarrow> (False, s)
      | Some (JObj kvs) \<Rightarrow>
          (True, fold (\<lambda>(key, v) s'. if key \<in> set (map snd KEYS) then Storage_set key v s' else s')
                   kvs s)
      | Some _ \<Rightarrow> (True, s))"

text \<open>
  For the statements about a task across calls: the first task with an id, as
  \<open>getTasks().find(t => t.id === id)\<close> gives it, and a sequence of
  \<open>updateTask(id, {completed: b})\<close> calls, each with its flag and its clock.
\<close>

definition findTask :: "string \<Rightarrow> store \<Rightarrow> obj option" where
  "findTask ident s =
     (case getTasks s of
        JArr tasks \<Rightarrow>
          (case findIndex_id ident tasks of
             Inl e \<Rightarrow> None
           | Inr index \<Rightarrow>
               if index \<noteq> - 1
               then (case tasks ! nat index of JObj t \<Rightarrow> Some t | _ \<Rightarrow> None)
               else None)
      | _ \<Rightarrow> None)"

fun completions :: "string \<Rightarrow> (bool \<times> string) list \<Rightarrow> store \<Rightarrow> error + store" where
  "completions ident [] s = Inr s"
| "completions ident ((b, nowISO) # calls) s =
     (case updateTask ident [(''completed'', JBool b)] nowISO s of
        Inl e \<Rightarrow> Inl e
      | Inr (r, s') \<Rightarrow> completions ident calls s')"

section \<open>Properties of the calendar\<close>

subsection \<open>Integer division\<close>





subsection \<open>Years\<close>








subsection \<open>Months and days of the month\<close>

lemma MonthFromTime_range: "0 \<le> MonthFromTime t \<and> MonthFromTime t \<le> 11"
  by (simp add: MonthFromTime_def Let_def)

lemma month_cases:
  fixes m :: int
  assumes "0 \<le> m" "m \<le> 11"
  obtains "m = 0" | "m = 1" | "m = 2" | "m = 3" | "m = 4" | "m = 5"
    | "m = 6" | "m = 7" | "m = 8" | "m = 9" | "m = 10" | "m = 11"
proof -
  from assms have "m = 0 \<or> m = 1 \<or> m = 2 \<or> m = 3 \<or> m = 4 \<or> m = 5
      \<or> m = 6 \<or> m = 7 \<or> m = 8 \<or> m = 9 \<or> m = 10 \<or> m = 11"
    by presburger
  then show thesis using that by blast
qed

lemma DateFromTime_eq:
  "DateFromTime t = DayWithinYear t - monthStart (MonthFromTime t) (YearFromTime t) + 1"
proof -
  note r = MonthFromTime_range [of t]
  show ?thesis
    by (rule month_cases [of "MonthFromTime t"])
      (simp_all add: r DateFromTime_def monthStart_def InLeapYear_def Let_def)
qed

lemma MakeDay_of_time:
  "MakeDay (YearFromTime t) (MonthFromTime t) dt = Day t - DateFromTime t + dt"
proof -
  note r = MonthFromTime_range [of t]
  then have "MonthFromTime t div 12 = 0" "MonthFromTime t mod 12 = MonthFromTime t"
    by simp_all
  then show ?thesis
    by (simp add: MakeDay_def Let_def DateFromTime_eq DayWithinYear_def)
qed

lemma LocalTime_fixed: "LocalTime (fixed c) t = t + c"
  by (simp add: LocalTime_def fixed_def)

lemma UTC_fixed: "UTC (fixed c) t = t - c"
  by (simp add: UTC_def fixed_def)

lemma msPerDay_pos: "0 < msPerDay"
  by (simp add: msPerDay_def)

lemma Day_MakeDate:
  "0 \<le> time \<Longrightarrow> time < msPerDay \<Longrightarrow> Day (MakeDate day time) = day"
  using msPerDay_pos by (simp add: Day_def MakeDate_def)

lemma TimeWithinDay_MakeDate:
  "0 \<le> time \<Longrightarrow> time < msPerDay \<Longrightarrow> TimeWithinDay (MakeDate day time) = time"
  by (simp add: TimeWithinDay_def MakeDate_def)

lemma MakeDate_Day: "MakeDate (Day t) (TimeWithinDay t) = t"
  by (simp add: MakeDate_def Day_def TimeWithinDay_def)

lemma setDate_eq: "setDate (fixed tz) t dt = t + (dt - getDate (fixed tz) t) * msPerDay"
proof -
  define lt where "lt = LocalTime (fixed tz) t"
  have "MakeDate (Day lt - DateFromTime lt + dt) (TimeWithinDay lt)
      = MakeDate (Day lt) (TimeWithinDay lt) + (dt - DateFromTime lt) * msPerDay"
    by (simp add: MakeDate_def algebra_simps)
  then show ?thesis
    by (simp add: setDate_def Let_def MakeDay_of_time MakeDate_Day getDate_def UTC_fixed
        flip: lt_def) (simp add: lt_def LocalTime_fixed)
qed


subsection \<open>Week start\<close>

lemma Day_add_days: "Day (t + k * msPerDay) = Day t + k"
  using msPerDay_pos by (simp add: Day_def)




subsection \<open>Month grid\<close>











lemma map_upto_shift: "map (\<lambda>i. a + i) [l..u] = [a + l..a + u]"
  by (rule nth_equalityI) simp_all

lemma map_rev_upto: "map (\<lambda>i. a - i) (rev [l..u]) = [a - u..a - l]"
proof (rule nth_equalityI)
  show "length (map (\<lambda>i. a - i) (rev [l..u])) = length [a - u..a - l]" by simp
next
  fix i assume "i < length (map (\<lambda>i. a - i) (rev [l..u]))"
  then have i: "i < nat (u - l + 1)" by simp
  then have "rev [l..u] ! i = u - int i"
    by (simp add: rev_nth)
  then show "map (\<lambda>i. a - i) (rev [l..u]) ! i = [a - u..a - l] ! i"
    using i by simp
qed

lemma monday_offset:
  fixes x :: int
  shows "(x + 4 - (if (x + 4) mod 7 - 1 = - 1 then 6 else (x + 4) mod 7 - 1)) mod 7 = 1"
proof -
  have "(x + 4 - (if (x + 4) mod 7 - 1 = - 1 then 6 else (x + 4) mod 7 - 1)) mod 7
      = ((x + 4) mod 7 - (if (x + 4) mod 7 - 1 = - 1 then 6 else (x + 4) mod 7 - 1)) mod 7"
    by (simp only: mod_diff_left_eq)
  also have "\<dots> = 1" by simp
  finally show ?thesis .
qed





subsection \<open>Zones with a change of offset\<close>

text \<open>
  In a zone where no local time is skipped, that is, where every local time is the local
  time of the instant it is read as (a zone with a fixed offset, and also \<open>eastern2026\<close>,
  whose one transition sets the clock back), the week start is the local midnight of
  the Monday on or before the local day of the date, and the month grid, read in local
  time, is the grid of UTC.
\<close>

lemma eastern2026_local: "LocalTime eastern2026 (UTC eastern2026 l) = l"
  by (simp add: LocalTime_def UTC_def eastern2026_def)

lemma fixed_local: "LocalTime (fixed c) (UTC (fixed c) l) = l"
  by (simp add: LocalTime_fixed UTC_fixed)

lemma getWeekStart_local:
  assumes r: "\<And>l. LocalTime z (UTC z l) = l"
  shows "getWeekStart z D
     = UTC z ((Day (LocalTime z D) - (if getDay z D = 0 then 6 else getDay z D - 1)) * msPerDay)"
proof -
  define lt where "lt = LocalTime z D"
  define n where "n = Day lt - (if getDay z D = 0 then 6 else getDay z D - 1)"
  have tw: "0 \<le> TimeWithinDay lt" "TimeWithinDay lt < msPerDay"
    using msPerDay_pos by (simp_all add: TimeWithinDay_def)
  have "Day lt - DateFromTime lt
        + (getDate z D - getDay z D + (if getDay z D = 0 then - 6 else 1)) = n"
    by (simp add: n_def getDate_def lt_def)
  then have d1: "setDate z D (getDate z D - getDay z D + (if getDay z D = 0 then - 6 else 1))
      = UTC z (MakeDate n (TimeWithinDay lt))"
    by (simp add: setDate_def Let_def MakeDay_of_time flip: lt_def)
  have "Day (MakeDate n (TimeWithinDay lt)) = n"
    using tw msPerDay_pos by (simp add: MakeDate_def Day_def)
  then have "Day (LocalTime z (UTC z (MakeDate n (TimeWithinDay lt)))) = n"
    by (simp add: r)
  then have "getWeekStart z D = UTC z (n * msPerDay)"
    unfolding getWeekStart_def Let_def d1
    by (simp add: setHours_def MakeDate_def MakeTime_def)
  then show ?thesis by (simp add: n_def lt_def)
qed

lemma week_start_local:
  assumes r: "\<And>l. LocalTime z (UTC z l) = l"
  shows "LocalTime z (getWeekStart z D)
           = (Day (LocalTime z D) - (if getDay z D = 0 then 6 else getDay z D - 1)) * msPerDay
    \<and> getDay z (getWeekStart z D) = 1
    \<and> getWeekStart z (getWeekStart z D) = getWeekStart z D"
proof -
  define n where "n = Day (LocalTime z D) - (if getDay z D = 0 then 6 else getDay z D - 1)"
  have W: "getWeekStart z D = UTC z (n * msPerDay)"
    unfolding n_def using r by (rule getWeekStart_local)
  have lW: "LocalTime z (getWeekStart z D) = n * msPerDay"
    by (simp add: W r)
  have dW: "Day (LocalTime z (getWeekStart z D)) = n"
    using msPerDay_pos by (simp add: lW Day_def)
  have g: "getDay z D = (Day (LocalTime z D) + 4) mod 7"
    by (simp add: getDay_def WeekDay_def)
  have "(n + 4) mod 7 = 1"
    unfolding n_def g using monday_offset [of "Day (LocalTime z D)"]
    by (simp add: algebra_simps)
  then have m: "getDay z (getWeekStart z D) = 1"
    by (simp add: getDay_def WeekDay_def dW)
  have "getWeekStart z (getWeekStart z D)
      = UTC z ((Day (LocalTime z (getWeekStart z D))
          - (if getDay z (getWeekStart z D) = 0 then 6 else getDay z (getWeekStart z D) - 1))
          * msPerDay)"
    using r by (rule getWeekStart_local)
  also have "\<dots> = UTC z (n * msPerDay)" by (simp add: m dW)
  finally have "getWeekStart z (getWeekStart z D) = getWeekStart z D" by (simp add: W)
  then show ?thesis using lW m by (simp add: n_def)
qed

lemma Date_ymd_local:
  assumes r: "\<And>l. LocalTime z (UTC z l) = l"
  shows "LocalTime z (Date_ymd z year m dt) = Date_ymd (fixed 0) year m dt"
  by (simp add: Date_ymd_def Let_def r UTC_fixed)

lemma calendar_local:
  assumes r: "\<And>l. LocalTime z (UTC z l) = l"
  shows "map (\<lambda>c. (LocalTime z (cell_date c), cell_dayNum c, cell_isOtherMonth c))
           (getCalendarDays z now year month)
       = map (\<lambda>c. (cell_date c, cell_dayNum c, cell_isOtherMonth c))
           (getCalendarDays (fixed 0) now' year month)"
proof -
  note L = Date_ymd_local [of z, OF r]
  have g: "getDay z (Date_ymd z y m d) = getDay (fixed 0) (Date_ymd (fixed 0) y m d)"
    "getDate z (Date_ymd z y m d) = getDate (fixed 0) (Date_ymd (fixed 0) y m d)" for y m d
    by (simp_all add: getDay_def getDate_def L LocalTime_fixed)
  show ?thesis
    by (simp add: getCalendarDays_def Let_def g L comp_def)
qed

section \<open>Habit streaks\<close>

lemma toISODate_prev: "toISODate (setDate (fixed tz) t (getDate (fixed tz) t - 1)) = toISODate t - 1"
  using Day_add_days [of t "- 1"] by (simp add: setDate_eq toISODate_def)

lemma toISODate_yesterday: "toISODate (now - 86400000) = toISODate now - 1"
  using Day_add_days [of now "- 1"] by (simp add: toISODate_def msPerDay_def)

lemma toISODate_Date_iso: "toISODate (Date_iso s) = s"
  using msPerDay_pos by (simp add: toISODate_def Date_iso_def MakeDate_def Day_def)

lemma streak_loop_run:
  assumes "sorted_wrt (>) xs" "\<forall>x\<in>set xs. x < toISODate cur"
  shows "k \<le> streak_loop (fixed tz) cur k xs
    \<and> (\<forall>j. 1 \<le> j \<and> j \<le> streak_loop (fixed tz) cur k xs - k \<longrightarrow> toISODate cur - j \<in> set xs)
    \<and> toISODate cur - (streak_loop (fixed tz) cur k xs - k + 1) \<notin> set xs"
  using assms
proof (induction xs arbitrary: cur k)
  case Nil
  then show ?case by simp
next
  case (Cons x rest)
  define prev where "prev = setDate (fixed tz) cur (getDate (fixed tz) cur - 1)"
  have p: "toISODate prev = toISODate cur - 1"
    unfolding prev_def by (rule toISODate_prev)
  from Cons.prems have xs: "sorted_wrt (>) rest" "\<forall>y\<in>set rest. y < x" "x < toISODate cur"
    by auto
  show ?case
  proof (cases "x = toISODate prev")
    case True
    have r: "streak_loop (fixed tz) cur k (x # rest) = streak_loop (fixed tz) prev (k + 1) rest"
      using True by (simp add: prev_def Let_def)
    define n where "n = streak_loop (fixed tz) prev (k + 1) rest"
    have "\<forall>y\<in>set rest. y < toISODate prev" using xs True by simp
    from Cons.IH [OF xs(1) this, of "k + 1"]
    have ih: "k + 1 \<le> n" "\<forall>j. 1 \<le> j \<and> j \<le> n - (k + 1) \<longrightarrow> toISODate prev - j \<in> set rest"
      "toISODate prev - (n - (k + 1) + 1) \<notin> set rest"
      unfolding n_def by auto
    have a: "k \<le> n" using ih(1) by simp
    have b: "toISODate cur - j \<in> set (x # rest)" if "1 \<le> j" "j \<le> n - k" for j
    proof (cases "j = 1")
      case True
      then show ?thesis using \<open>x = toISODate prev\<close> p by simp
    next
      case False
      with that have "1 \<le> j - 1 \<and> j - 1 \<le> n - (k + 1)" by simp
      with ih(2) have "toISODate prev - (j - 1) \<in> set rest" by blast
      then show ?thesis by (simp add: p)
    qed
    have e: "toISODate cur - (n - k + 1) = toISODate prev - (n - (k + 1) + 1)"
      by (simp add: p)
    have "toISODate cur - (n - k + 1) \<notin> set rest"
      unfolding e by (rule ih(3))
    moreover have "toISODate cur - (n - k + 1) \<noteq> x"
      using True p ih(1) by simp
    ultimately have c: "toISODate cur - (n - k + 1) \<notin> set (x # rest)"
      by simp
    show ?thesis unfolding r n_def [symmetric] using a b c by blast
  next
    case False
    then have r: "streak_loop (fixed tz) cur k (x # rest) = k"
      by (simp add: prev_def Let_def)
    have "x < toISODate cur - 1" using False p xs(3) by simp
    moreover have "\<forall>y\<in>set rest. y < toISODate cur - 1" using xs(2) calculation by auto
    ultimately have "toISODate cur - 1 \<notin> set (x # rest)" by auto
    then show ?thesis unfolding r by simp
  qed
qed

lemma sorted_desc:
  assumes "distinct ds"
  shows "sorted_wrt (>) (rev (sort ds))"
proof -
  have "sorted_wrt (<) (sort ds)"
    using assms by (simp add: strict_sorted_iff)
  then show ?thesis
    by (simp add: sorted_wrt_rev)
qed

lemma hd_desc_Max:
  fixes z :: int
  assumes "sorted_wrt (>) (z # zs)"
  shows "Max (set (z # zs)) = z"
proof (rule Max_eqI)
  show "finite (set (z # zs))" by simp
  show "y \<le> z" if "y \<in> set (z # zs)" for y
    using that assms by auto
  show "z \<in> set (z # zs)" by simp
qed


lemma streak_loop_today:
  "toISODate cur = toISODate cur' \<Longrightarrow> streak_loop (fixed tz) cur k xs = streak_loop (fixed tz') cur' k xs"
proof (induction xs arbitrary: cur cur' k)
  case Nil
  then show ?case by simp
next
  case (Cons x xs)
  have p: "toISODate (setDate (fixed tz) cur (getDate (fixed tz) cur - 1))
      = toISODate (setDate (fixed tz') cur' (getDate (fixed tz') cur' - 1))"
    using Cons.prems by (simp add: toISODate_prev)
  show ?case
    using Cons.IH [OF p] p by (simp add: Let_def)
qed

lemma calculateStreak_today:
  "toISODate now' = toISODate now \<Longrightarrow> calculateStreak (fixed tz') now' ds = calculateStreak (fixed tz) now ds"
proof -
  have "streak_loop (fixed tz') c 1 xs = streak_loop (fixed tz) c 1 xs" for c xs
    by (rule streak_loop_today) simp
  then show ?thesis
    if "toISODate now' = toISODate now"
    using that by (simp add: calculateStreak_def Let_def toISODate_yesterday)
qed


text \<open>
  In a zone with a fixed offset the streak is the current run. For a duplicate-free list
  of ISO dates and the clock \<open>now\<close> (today is \<open>toISODate now\<close>): \<open>calculateStreak\<close> is 0
  for the empty list and when the most recent date is neither today nor yesterday;
  otherwise it is the length \<open>n \<ge> 1\<close> of the longest run of consecutive days that ends
  at the most recent date \<open>M\<close>: the days \<open>M, M - 1, ..., M - (n - 1)\<close> are all in the list
  and \<open>M - n\<close> is not. Today, yesterday and the day before give 3; three and four days ago
  give 0; today alone gives 1. Two clocks on the same day, in whatever fixed zones, give
  the same streak.
\<close>

lemma streak_fixed_zone:
  assumes "distinct ds"
  shows "(ds = [] \<longrightarrow> calculateStreak (fixed tz) now ds = 0)
    \<and> (ds \<noteq> [] \<and> Max (set ds) \<noteq> toISODate now \<and> Max (set ds) \<noteq> toISODate now - 1
         \<longrightarrow> calculateStreak (fixed tz) now ds = 0)
    \<and> (ds \<noteq> [] \<and> (Max (set ds) = toISODate now \<or> Max (set ds) = toISODate now - 1)
         \<longrightarrow> 1 \<le> calculateStreak (fixed tz) now ds
           \<and> (\<forall>j. 0 \<le> j \<and> j < calculateStreak (fixed tz) now ds \<longrightarrow> Max (set ds) - j \<in> set ds)
           \<and> Max (set ds) - calculateStreak (fixed tz) now ds \<notin> set ds)
    \<and> calculateStreak (fixed tz) now [toISODate now, toISODate now - 1, toISODate now - 2] = 3
    \<and> calculateStreak (fixed tz) now [toISODate now - 3, toISODate now - 4] = 0
    \<and> calculateStreak (fixed tz) now [toISODate now] = 1
    \<and> (\<forall>tz' now'. toISODate now' = toISODate now
          \<longrightarrow> calculateStreak (fixed tz') now' ds = calculateStreak (fixed tz) now ds)"
proof -
  have a: "ds = [] \<longrightarrow> calculateStreak (fixed tz) now ds = 0"
    by (simp add: calculateStreak_def)
  have bc: "(Max (set ds) \<noteq> toISODate now \<and> Max (set ds) \<noteq> toISODate now - 1
         \<longrightarrow> calculateStreak (fixed tz) now ds = 0)
    \<and> (Max (set ds) = toISODate now \<or> Max (set ds) = toISODate now - 1
         \<longrightarrow> 1 \<le> calculateStreak (fixed tz) now ds
           \<and> (\<forall>j. 0 \<le> j \<and> j < calculateStreak (fixed tz) now ds \<longrightarrow> Max (set ds) - j \<in> set ds)
           \<and> Max (set ds) - calculateStreak (fixed tz) now ds \<notin> set ds)" if ne: "ds \<noteq> []"
  proof -
    from ne have "rev (sort ds) \<noteq> []"
      by (metis length_sort length_0_conv rev_is_Nil_conv)
    then obtain z zs where zs: "rev (sort ds) = z # zs"
      by (cases "rev (sort ds)") auto
    have desc: "sorted_wrt (>) (z # zs)"
      using sorted_desc [OF assms] zs by simp
    have "set (z # zs) = set ds"
      using zs by (metis set_rev set_sort)
    then have M: "Max (set ds) = z" and S: "set ds = insert z (set zs)"
      using hd_desc_Max [OF desc] by auto
    define c where "c = streak_loop (fixed tz) (Date_iso z) 1 zs"
    from desc have "sorted_wrt (>) zs" "\<forall>x\<in>set zs. x < toISODate (Date_iso z)"
      by (auto simp: toISODate_Date_iso)
    from streak_loop_run [OF this, of 1 tz]
    have run: "1 \<le> c" "\<forall>j. 1 \<le> j \<and> j \<le> c - 1 \<longrightarrow> z - j \<in> set zs" "z - c \<notin> set zs"
      unfolding c_def by (auto simp: toISODate_Date_iso)
    have cs: "calculateStreak (fixed tz) now ds
        = (if z \<noteq> toISODate now \<and> z \<noteq> toISODate now - 1 then 0 else c)"
      using ne by (simp add: calculateStreak_def zs Let_def toISODate_yesterday c_def)
    have r1: "z - j \<in> set ds" if "0 \<le> j" "j < c" for j
    proof (cases "j = 0")
      case True
      then show ?thesis by (simp add: S)
    next
      case False
      with that have "1 \<le> j \<and> j \<le> c - 1" by simp
      with run(2) show ?thesis by (auto simp: S)
    qed
    have r2: "z - c \<notin> set ds"
      using run(1,3) by (simp add: S)
    show ?thesis
      unfolding M cs using run(1) r1 r2 by auto
  qed
  have d: "calculateStreak (fixed tz) now [toISODate now, toISODate now - 1, toISODate now - 2] = 3"
    by (simp add: calculateStreak_def Let_def toISODate_yesterday toISODate_Date_iso
        toISODate_prev)
  have e: "calculateStreak (fixed tz) now [toISODate now - 3, toISODate now - 4] = 0"
    by (simp add: calculateStreak_def Let_def toISODate_yesterday)
  have f: "calculateStreak (fixed tz) now [toISODate now] = 1"
    by (simp add: calculateStreak_def Let_def)
  have g: "\<forall>tz' now'. toISODate now' = toISODate now
          \<longrightarrow> calculateStreak (fixed tz') now' ds = calculateStreak (fixed tz) now ds"
    using calculateStreak_today by blast
  show ?thesis using a bc d e f g by blast
qed

lemma streak_fixed_zone_example:
  "distinct [20464, 20465, 20463 :: int]
   \<and> toISODate 1768179600000 = 20465
   \<and> calculateStreak (fixed 7200000) 1768179600000 [20464, 20465, 20463] = 3
   \<and> calculateStreak (fixed 7200000) 1768179600000 [20464, 20462] = 1
   \<and> calculateStreak (fixed 7200000) 1768179600000 [20463, 20462] = 0"
proof -
  have t: "toISODate 1768179600000 = 20465" "toISODate 1768093200000 = 20464"
    by (simp_all add: toISODate_def Day_def msPerDay_def)
  have d: "distinct [20464, 20465, 20463 :: int]" "distinct [20464, 20462 :: int]"
    "distinct [20463, 20462 :: int]"
    by simp_all
  have m: "Max (set [20464, 20465, 20463 :: int]) = 20465" "Max (set [20464, 20462 :: int]) = 20464"
    "Max (set [20463, 20462 :: int]) = 20463"
    by simp_all
  note w = streak_fixed_zone [OF d(1), of 7200000 1768179600000, THEN conjunct2,
      THEN conjunct2, THEN conjunct1]
  have "calculateStreak (fixed 7200000) 1768179600000 [20464, 20465, 20463] = 3"
    by (simp add: calculateStreak_def Let_def t toISODate_Date_iso
        toISODate_prev)
  moreover have "calculateStreak (fixed 7200000) 1768179600000 [20464, 20462] = 1"
    by (simp add: calculateStreak_def Let_def t toISODate_Date_iso
        toISODate_prev)
  moreover have "calculateStreak (fixed 7200000) 1768179600000 [20463, 20462] = 0"
    by (simp add: calculateStreak_def Let_def t toISODate_Date_iso
        toISODate_prev)
  ultimately show ?thesis using w t d by simp
qed

text \<open>
  Claim C2 does not hold of the code in a zone with daylight saving: a code defect.
  \<open>calculateStreak\<close> reads the most recent date as midnight UTC, steps back one day in
  local time (\<open>setDate\<close>) and takes the UTC date of the result. In US Eastern time the
  instant 2026-11-02T00:00Z is 1 November, 19:00 EST; the local day before, 31 October,
  19:00 EDT, is 2026-10-31T23:00Z, so the date 2026-11-01 is stepped over. On 2 November
  2026 (day 20759) the streak of today, yesterday and the day before is 1 there, while
  it is 3 in a zone with a fixed offset (UTC, or a constant UTC-5).
\<close>

theorem streak_broken_at_dst_end:
  "toISODate 1793631600000 = 20759
   \<and> getDate eastern2026 (Date_iso 20759) = 1
   \<and> toISODate (setDate eastern2026 (Date_iso 20759) (getDate eastern2026 (Date_iso 20759) - 1))
       = 20757
   \<and> calculateStreak eastern2026 1793631600000 [20759, 20758, 20757] = 1
   \<and> calculateStreak (fixed 0) 1793631600000 [20759, 20758, 20757] = 3
   \<and> calculateStreak (fixed (- 18000000)) 1793631600000 [20759, 20758, 20757] = 3"
proof -
  have t: "toISODate 1793631600000 = 20759" "toISODate 1793545200000 = 20758"
    by (simp_all add: toISODate_def Day_def msPerDay_def)
  have a: "Date_iso 20759 = 1793577600000"
    by (simp add: Date_iso_def MakeDate_def msPerDay_def)
  have b: "LocalTime eastern2026 1793577600000 = 1793559600000"
    by (simp add: LocalTime_def eastern2026_def)
  have c: "Day 1793559600000 = 20758" "TimeWithinDay 1793559600000 = 68400000"
    by (simp_all add: Day_def TimeWithinDay_def msPerDay_def)
  have d: "YearFromDay 20758 = 2026"
    by (simp add: YearFromDay_def DayFromYear_def Let_def)
  have m: "MonthFromTime 1793559600000 = 10"
    by (simp add: MonthFromTime_def DayWithinYear_def InLeapYear_def YearFromTime_def c d
        DaysInYear_def DayFromYear_def Let_def)
  have g: "getDate eastern2026 (Date_iso 20759) = 1"
    by (simp add: getDate_def a b DateFromTime_def m DayWithinYear_def InLeapYear_def
        YearFromTime_def c d DaysInYear_def DayFromYear_def Let_def)
  have k: "MakeDay 2026 10 0 = 20757"
    by (simp add: MakeDay_def monthStart_def DaysInYear_def DayFromYear_def Let_def)
  have u: "UTC eastern2026 (MakeDate 20757 68400000) = 1793487600000"
    by (simp add: UTC_def MakeDate_def msPerDay_def eastern2026_def)
  have p: "setDate eastern2026 (Date_iso 20759) 0 = 1793487600000"
    by (simp add: setDate_def a b c d m k u YearFromTime_def Let_def)
  have q: "toISODate 1793487600000 = 20757"
    by (simp add: toISODate_def Day_def msPerDay_def)
  have s: "rev (sort [20759, 20758, 20757 :: int]) = [20759, 20758, 20757]"
    by simp
  have e: "calculateStreak eastern2026 1793631600000 [20759, 20758, 20757] = 1"
    unfolding calculateStreak_def Let_def s by (simp add: t g p q)
  have f: "calculateStreak (fixed c) 1793631600000 [20759, 20758, 20757] = 3" for c
    unfolding calculateStreak_def Let_def s by (simp add: t toISODate_Date_iso toISODate_prev)
  show ?thesis
    using t(1) g p q e f [of 0] f [of "- 18000000"] by simp
qed

subsection \<open>Toggling a habit\<close>

lemma toggle_step:
  "case toggleHabitCompletion tz now habitId dateStr hs of (hs', r) \<Rightarrow>
     length hs' = length hs
     \<and> (\<forall>i<length hs.
          if habit_id (hs ! i) = habitId \<and> (\<forall>j<i. habit_id (hs ! j) \<noteq> habitId)
          then r = Some (hs' ! i)
             \<and> hs' ! i = (hs ! i)
                 \<lparr>completedDates := toggleDate dateStr (completedDates (hs ! i)),
                  currentStreak :=
                    calculateStreak tz now (toggleDate dateStr (completedDates (hs ! i))),
                  longestStreak :=
                    max (longestStreak (hs ! i))
                      (calculateStreak tz now (toggleDate dateStr (completedDates (hs ! i))))\<rparr>
          else hs' ! i = hs ! i)
     \<and> (r = None \<longleftrightarrow> habitId \<notin> habit_id ` set hs)"
proof (induction hs)
  case Nil
  then show ?case by simp
next
  case (Cons h hs)
  show ?case
  proof (cases "habit_id h = habitId")
    case True
    have "\<And>i. 0 < i \<Longrightarrow> \<not> (\<forall>j<i. habit_id ((h # hs) ! j) \<noteq> habitId)"
      using True by auto
    then show ?thesis
      using True by (auto simp: Let_def nth_Cons split: nat.splits)
  next
    case False
    obtain hs' r where t: "toggleHabitCompletion tz now habitId dateStr hs = (hs', r)"
      by (cases "toggleHabitCompletion tz now habitId dateStr hs")
    have e: "toggleHabitCompletion tz now habitId dateStr (h # hs) = (h # hs', r)"
      using False t by simp
    have q: "(\<forall>j<Suc k. habit_id ((h # hs) ! j) \<noteq> habitId)
        \<longleftrightarrow> (\<forall>j<k. habit_id (hs ! j) \<noteq> habitId)" for k
    proof
      assume a: "\<forall>j<Suc k. habit_id ((h # hs) ! j) \<noteq> habitId"
      show "\<forall>j<k. habit_id (hs ! j) \<noteq> habitId"
      proof (intro allI impI)
        fix j assume "j < k"
        then have "Suc j < Suc k" by simp
        with a have "habit_id ((h # hs) ! Suc j) \<noteq> habitId" by blast
        then show "habit_id (hs ! j) \<noteq> habitId" by simp
      qed
    next
      assume a: "\<forall>j<k. habit_id (hs ! j) \<noteq> habitId"
      show "\<forall>j<Suc k. habit_id ((h # hs) ! j) \<noteq> habitId"
      proof (intro allI impI)
        fix j assume "j < Suc k"
        then show "habit_id ((h # hs) ! j) \<noteq> habitId"
          using a False by (cases j) simp_all
      qed
    qed
    from Cons.IH have ih: "length hs' = length hs"
      "\<forall>i<length hs.
          if habit_id (hs ! i) = habitId \<and> (\<forall>j<i. habit_id (hs ! j) \<noteq> habitId)
          then r = Some (hs' ! i)
             \<and> hs' ! i = (hs ! i)
                 \<lparr>completedDates := toggleDate dateStr (completedDates (hs ! i)),
                  currentStreak :=
                    calculateStreak tz now (toggleDate dateStr (completedDates (hs ! i))),
                  longestStreak :=
                    max (longestStreak (hs ! i))
                      (calculateStreak tz now (toggleDate dateStr (completedDates (hs ! i))))\<rparr>
          else hs' ! i = hs ! i"
      "r = None \<longleftrightarrow> habitId \<notin> habit_id ` set hs"
      unfolding t by simp_all
    have main: "if habit_id ((h # hs) ! i) = habitId \<and> (\<forall>j<i. habit_id ((h # hs) ! j) \<noteq> habitId)
          then r = Some ((h # hs') ! i)
             \<and> (h # hs') ! i = ((h # hs) ! i)
                 \<lparr>completedDates := toggleDate dateStr (completedDates ((h # hs) ! i)),
                  currentStreak :=
                    calculateStreak tz now (toggleDate dateStr (completedDates ((h # hs) ! i))),
                  longestStreak :=
                    max (longestStreak ((h # hs) ! i))
                      (calculateStreak tz now
                         (toggleDate dateStr (completedDates ((h # hs) ! i))))\<rparr>
          else (h # hs') ! i = (h # hs) ! i" if "i < length (h # hs)" for i
    proof (cases i)
      case 0
      then show ?thesis using False by simp
    next
      case (Suc k)
      then have k: "k < length hs" using that by simp
      show ?thesis
      proof (cases "habit_id (hs ! k) = habitId \<and> (\<forall>j<k. habit_id (hs ! j) \<noteq> habitId)")
        case True
        then have c: "habit_id ((h # hs) ! Suc k) = habitId
            \<and> (\<forall>j<Suc k. habit_id ((h # hs) ! j) \<noteq> habitId)"
          using q [of k] by simp
        from ih(2) k True have "r = Some (hs' ! k)
             \<and> hs' ! k = (hs ! k)
                 \<lparr>completedDates := toggleDate dateStr (completedDates (hs ! k)),
                  currentStreak :=
                    calculateStreak tz now (toggleDate dateStr (completedDates (hs ! k))),
                  longestStreak :=
                    max (longestStreak (hs ! k))
                      (calculateStreak tz now (toggleDate dateStr (completedDates (hs ! k))))\<rparr>"
          by simp
        then show ?thesis unfolding Suc if_P [OF c] by simp
      next
        case F: False
        then have c: "\<not> (habit_id ((h # hs) ! Suc k) = habitId
            \<and> (\<forall>j<Suc k. habit_id ((h # hs) ! j) \<noteq> habitId))"
          using q [of k] by simp
        from ih(2) k F have "hs' ! k = hs ! k" by simp
        then show ?thesis unfolding Suc if_not_P [OF c] by simp
      qed
    qed
    have n: "r = None \<longleftrightarrow> habitId \<notin> habit_id ` set (h # hs)"
      using ih(3) False by auto
    show ?thesis
      unfolding e using ih(1) main n by simp
  qed
qed

lemma toggle_longest:
  assumes "toggleHabitCompletion tz now habitId dateStr hs = (hs', r)"
  shows "length hs' = length hs"
    and "\<forall>i<length hs. longestStreak (hs ! i) \<le> longestStreak (hs' ! i)"
    and "(\<forall>h\<in>set hs. currentStreak h \<le> longestStreak h)
          \<Longrightarrow> (\<forall>h\<in>set hs'. currentStreak h \<le> longestStreak h)"
proof -
  from toggle_step [where tz = tz and now = now and habitId = habitId and dateStr = dateStr
      and hs = hs] assms
  have l: "length hs' = length hs"
    and s: "\<forall>i<length hs.
          if habit_id (hs ! i) = habitId \<and> (\<forall>j<i. habit_id (hs ! j) \<noteq> habitId)
          then r = Some (hs' ! i)
             \<and> hs' ! i = (hs ! i)
                 \<lparr>completedDates := toggleDate dateStr (completedDates (hs ! i)),
                  currentStreak :=
                    calculateStreak tz now (toggleDate dateStr (completedDates (hs ! i))),
                  longestStreak :=
                    max (longestStreak (hs ! i))
                      (calculateStreak tz now (toggleDate dateStr (completedDates (hs ! i))))\<rparr>
          else hs' ! i = hs ! i"
    by simp_all
  have k: "longestStreak (hs ! i) \<le> longestStreak (hs' ! i)
      \<and> (currentStreak (hs ! i) \<le> longestStreak (hs ! i)
          \<longrightarrow> currentStreak (hs' ! i) \<le> longestStreak (hs' ! i))" if "i < length hs" for i
  proof (cases "habit_id (hs ! i) = habitId \<and> (\<forall>j<i. habit_id (hs ! j) \<noteq> habitId)")
    case True
    with s that have "hs' ! i = (hs ! i)
                 \<lparr>completedDates := toggleDate dateStr (completedDates (hs ! i)),
                  currentStreak :=
                    calculateStreak tz now (toggleDate dateStr (completedDates (hs ! i))),
                  longestStreak :=
                    max (longestStreak (hs ! i))
                      (calculateStreak tz now (toggleDate dateStr (completedDates (hs ! i))))\<rparr>"
      by simp
    then show ?thesis by simp
  next
    case False
    with s that have "hs' ! i = hs ! i" by simp
    then show ?thesis by simp
  qed
  show "length hs' = length hs" by (rule l)
  show "\<forall>i<length hs. longestStreak (hs ! i) \<le> longestStreak (hs' ! i)"
    using k by blast
  show "\<forall>h\<in>set hs'. currentStreak h \<le> longestStreak h"
    if inv: "\<forall>h\<in>set hs. currentStreak h \<le> longestStreak h"
  proof
    fix h assume "h \<in> set hs'"
    then obtain i where i: "i < length hs'" "h = hs' ! i"
      by (auto simp: in_set_conv_nth)
    then have "currentStreak (hs ! i) \<le> longestStreak (hs ! i)"
      using inv l by simp
    then show "currentStreak h \<le> longestStreak h"
      using k [of i] i l by simp
  qed
qed

lemma toggles_longest:
  "length (toggles tz calls hs) = length hs
   \<and> (\<forall>i<length hs. longestStreak (hs ! i) \<le> longestStreak (toggles tz calls hs ! i))
   \<and> ((\<forall>h\<in>set hs. currentStreak h \<le> longestStreak h)
        \<longrightarrow> (\<forall>h\<in>set (toggles tz calls hs). currentStreak h \<le> longestStreak h))"
proof (induction calls arbitrary: hs)
  case Nil
  then show ?case by simp
next
  case (Cons c calls)
  obtain now habitId dateStr where c: "c = (now, habitId, dateStr)"
    by (cases c)
  obtain hs' r where t: "toggleHabitCompletion tz now habitId dateStr hs = (hs', r)"
    by (cases "toggleHabitCompletion tz now habitId dateStr hs")
  note st = toggle_longest [OF t]
  note ih = Cons.IH [of hs']
  have e: "toggles tz (c # calls) hs = toggles tz calls hs'"
    by (simp add: c t)
  show ?case
    unfolding e using st ih by (auto intro: order_trans)
qed

text \<open>
  Claim C3, amended. For every habits collection, every zone and clock and every
  \<open>toggleHabitCompletion\<close> call: the collection keeps its length; the first habit with
  the id, and no other, is replaced by itself with its dates toggled, its \<open>currentStreak\<close>
  recomputed from them and its \<open>longestStreak\<close> set to the maximum of its previous value
  and the recomputed \<open>currentStreak\<close>, so that it has \<open>currentStreak \<le> longestStreak\<close>;
  that habit is returned, and nothing is returned exactly when no habit has the id.
  Across any sequence of toggles no \<open>longestStreak\<close> decreases, and a collection in which
  every habit has \<open>currentStreak \<le> longestStreak\<close> stays so. \<open>addHabit\<close> appends a habit
  whose streaks are those of its argument where it has them and 0 where it has not.
\<close>

theorem longest_streak_watermark:
  "(case toggleHabitCompletion tz now habitId dateStr hs of (hs', r) \<Rightarrow>
      length hs' = length hs
      \<and> (\<forall>i<length hs.
           if habit_id (hs ! i) = habitId \<and> (\<forall>j<i. habit_id (hs ! j) \<noteq> habitId)
           then r = Some (hs' ! i)
              \<and> hs' ! i = (hs ! i)
                  \<lparr>completedDates := toggleDate dateStr (completedDates (hs ! i)),
                   currentStreak :=
                     calculateStreak tz now (toggleDate dateStr (completedDates (hs ! i))),
                   longestStreak :=
                     max (longestStreak (hs ! i))
                       (calculateStreak tz now (toggleDate dateStr (completedDates (hs ! i))))\<rparr>
              \<and> longestStreak (hs' ! i) = max (longestStreak (hs ! i)) (currentStreak (hs' ! i))
              \<and> currentStreak (hs' ! i) \<le> longestStreak (hs' ! i)
           else hs' ! i = hs ! i)
      \<and> (r = None \<longleftrightarrow> habitId \<notin> habit_id ` set hs))
   \<and> length (toggles tz calls hs) = length hs
   \<and> (\<forall>i<length hs. longestStreak (hs ! i) \<le> longestStreak (toggles tz calls hs ! i))
   \<and> ((\<forall>h\<in>set hs. currentStreak h \<le> longestStreak h)
        \<longrightarrow> (\<forall>h\<in>set (toggles tz calls hs). currentStreak h \<le> longestStreak h))
   \<and> (case addHabit p newId nowISO hs of (hs', h) \<Rightarrow>
        hs' = hs @ [h]
        \<and> currentStreak h = (case p_currentStreak p of Some v \<Rightarrow> v | None \<Rightarrow> 0)
        \<and> longestStreak h = (case p_longestStreak p of Some v \<Rightarrow> v | None \<Rightarrow> 0))"
proof -
  obtain hs' r where t: "toggleHabitCompletion tz now habitId dateStr hs = (hs', r)"
    by (cases "toggleHabitCompletion tz now habitId dateStr hs")
  from toggle_step [where tz = tz and now = now and habitId = habitId and dateStr = dateStr
      and hs = hs] t
  have l: "length hs' = length hs"
    and s: "\<forall>i<length hs.
          if habit_id (hs ! i) = habitId \<and> (\<forall>j<i. habit_id (hs ! j) \<noteq> habitId)
          then r = Some (hs' ! i)
             \<and> hs' ! i = (hs ! i)
                 \<lparr>completedDates := toggleDate dateStr (completedDates (hs ! i)),
                  currentStreak :=
                    calculateStreak tz now (toggleDate dateStr (completedDates (hs ! i))),
                  longestStreak :=
                    max (longestStreak (hs ! i))
                      (calculateStreak tz now (toggleDate dateStr (completedDates (hs ! i))))\<rparr>
          else hs' ! i = hs ! i"
    and n: "r = None \<longleftrightarrow> habitId \<notin> habit_id ` set hs"
    by simp_all
  have s': "if habit_id (hs ! i) = habitId \<and> (\<forall>j<i. habit_id (hs ! j) \<noteq> habitId)
           then r = Some (hs' ! i)
              \<and> hs' ! i = (hs ! i)
                  \<lparr>completedDates := toggleDate dateStr (completedDates (hs ! i)),
                   currentStreak :=
                     calculateStreak tz now (toggleDate dateStr (completedDates (hs ! i))),
                   longestStreak :=
                     max (longestStreak (hs ! i))
                       (calculateStreak tz now (toggleDate dateStr (completedDates (hs ! i))))\<rparr>
              \<and> longestStreak (hs' ! i) = max (longestStreak (hs ! i)) (currentStreak (hs' ! i))
              \<and> currentStreak (hs' ! i) \<le> longestStreak (hs' ! i)
           else hs' ! i = hs ! i" if "i < length hs" for i
  proof (cases "habit_id (hs ! i) = habitId \<and> (\<forall>j<i. habit_id (hs ! j) \<noteq> habitId)")
    case True
    with s that have a: "r = Some (hs' ! i)" and b: "hs' ! i = (hs ! i)
                 \<lparr>completedDates := toggleDate dateStr (completedDates (hs ! i)),
                  currentStreak :=
                    calculateStreak tz now (toggleDate dateStr (completedDates (hs ! i))),
                  longestStreak :=
                    max (longestStreak (hs ! i))
                      (calculateStreak tz now (toggleDate dateStr (completedDates (hs ! i))))\<rparr>"
      by simp_all
    have "longestStreak (hs' ! i) = max (longestStreak (hs ! i)) (currentStreak (hs' ! i))"
      "currentStreak (hs' ! i) \<le> longestStreak (hs' ! i)"
      by (simp_all add: b)
    then show ?thesis using True a b by simp
  next
    case False
    with s that show ?thesis by simp
  qed
  have one: "case toggleHabitCompletion tz now habitId dateStr hs of (hs', r) \<Rightarrow>
      length hs' = length hs
      \<and> (\<forall>i<length hs.
           if habit_id (hs ! i) = habitId \<and> (\<forall>j<i. habit_id (hs ! j) \<noteq> habitId)
           then r = Some (hs' ! i)
              \<and> hs' ! i = (hs ! i)
                  \<lparr>completedDates := toggleDate dateStr (completedDates (hs ! i)),
                   currentStreak :=
                     calculateStreak tz now (toggleDate dateStr (completedDates (hs ! i))),
                   longestStreak :=
                     max (longestStreak (hs ! i))
                       (calculateStreak tz now (toggleDate dateStr (completedDates (hs ! i))))\<rparr>
              \<and> longestStreak (hs' ! i) = max (longestStreak (hs ! i)) (currentStreak (hs' ! i))
              \<and> currentStreak (hs' ! i) \<le> longestStreak (hs' ! i)
           else hs' ! i = hs ! i)
      \<and> (r = None \<longleftrightarrow> habitId \<notin> habit_id ` set hs)"
    unfolding t using l s' n by simp
  have add: "case addHabit p newId nowISO hs of (hs', h) \<Rightarrow>
        hs' = hs @ [h]
        \<and> currentStreak h = (case p_currentStreak p of Some v \<Rightarrow> v | None \<Rightarrow> 0)
        \<and> longestStreak h = (case p_longestStreak p of Some v \<Rightarrow> v | None \<Rightarrow> 0)"
    by (simp add: addHabit_def Let_def)
  show ?thesis
    using one toggles_longest [of tz calls hs] add by blast
qed

theorem longest_streak_watermark_witness:
  "map longestStreak (fst (toggleHabitCompletion (fixed 0) 1768179600000 ''a'' 20465
      [\<lparr>habit_id = ''a'', habit_createdAt = ''2026-01-10T08:00:00.000Z'',
        completedDates = [20464], currentStreak = 1, longestStreak = 1,
        habit_name = Some ''read'', habit_frequency = Some ''daily''\<rparr>])) = [2]
   \<and> map currentStreak (fst (toggleHabitCompletion (fixed 0) 1768179600000 ''a'' 20465
      [\<lparr>habit_id = ''a'', habit_createdAt = ''2026-01-10T08:00:00.000Z'',
        completedDates = [20464], currentStreak = 1, longestStreak = 1,
        habit_name = Some ''read'', habit_frequency = Some ''daily''\<rparr>])) = [2]
   \<and> map longestStreak (toggles (fixed 0) [(1768179600000, ''a'', 20465), (1768179600000, ''a'', 20464),
        (1768179600000, ''b'', 20464)]
      [\<lparr>habit_id = ''a'', habit_createdAt = ''2026-01-10T08:00:00.000Z'',
        completedDates = [20464], currentStreak = 1, longestStreak = 1,
        habit_name = Some ''read'', habit_frequency = Some ''daily''\<rparr>]) = [2]
   \<and> map currentStreak (toggles (fixed 0) [(1768179600000, ''a'', 20465), (1768179600000, ''a'', 20464),
        (1768179600000, ''b'', 20464)]
      [\<lparr>habit_id = ''a'', habit_createdAt = ''2026-01-10T08:00:00.000Z'',
        completedDates = [20464], currentStreak = 1, longestStreak = 1,
        habit_name = Some ''read'', habit_frequency = Some ''daily''\<rparr>]) = [1]
   \<and> map longestStreak (fst (addHabit \<lparr>p_id = None, p_createdAt = None, p_completedDates = None,
        p_currentStreak = None, p_longestStreak = None, p_name = Some ''read'',
        p_frequency = Some ''daily''\<rparr> ''k1'' ''2026-01-12T01:00:00.000Z'' [])) = [0]"
proof -
  have t: "toISODate 1768179600000 = 20465" "toISODate 1768093200000 = 20464"
    by (simp_all add: toISODate_def Day_def msPerDay_def)
  note w = longest_streak_watermark [where tz = "fixed 0" and now = 1768179600000
      and habitId = "''a''" and dateStr = 20465
      and hs = "[\<lparr>habit_id = ''a'', habit_createdAt = ''2026-01-10T08:00:00.000Z'',
        completedDates = [20464], currentStreak = 1, longestStreak = 1,
        habit_name = Some ''read'', habit_frequency = Some ''daily''\<rparr>]"
      and calls = "[]"
      and p = "\<lparr>p_id = None, p_createdAt = None, p_completedDates = None,
        p_currentStreak = None, p_longestStreak = None, p_name = Some ''read'',
        p_frequency = Some ''daily''\<rparr>"
      and newId = "''k1''" and nowISO = "''2026-01-12T01:00:00.000Z''"]
  show ?thesis
    using w
    by (simp add: Let_def toggleDate_def calculateStreak_def t toISODate_Date_iso toISODate_prev
        addHabit_def)
qed

text \<open>
  The statement of claim C3 does not hold as it stands: \<open>addHabit\<close> spreads its argument
  over the defaults, so \<open>addHabit({currentStreak: 7, longestStreak: 3})\<close> stores a habit
  with \<open>longestStreak < currentStreak\<close>.
\<close>

theorem addHabit_streaks_overridden:
  "(case addHabit \<lparr>p_id = None, p_createdAt = None, p_completedDates = None,
        p_currentStreak = Some 7, p_longestStreak = Some 3, p_name = Some ''read'',
        p_frequency = Some ''daily''\<rparr> ''k1'' ''2026-01-12T01:00:00.000Z'' [] of
      (hs', h) \<Rightarrow> hs' = [h] \<and> currentStreak h = 7 \<and> longestStreak h = 3
        \<and> \<not> currentStreak h \<le> longestStreak h)"
  by (simp add: addHabit_def Let_def)

section \<open>Rounding to a double\<close>

text \<open>
  \<open>expo x\<close> is the binary exponent of \<open>x\<close> (\<open>expo_bounds\<close>, \<open>expo_unique\<close>); the rounded
  value is within half a unit in the last place (\<open>fl_rel\<close>), and \<open>fl_eqI\<close> computes it
  from the exponent and the nearest significand; an integer below \<open>2 ^ 53\<close> is a double
  (\<open>fl_of_int\<close>).
\<close>

lemma powi_pos: "(0::rat) < 2 powi e"
  by (simp add: zero_less_power_int)

lemma powi_Suc: "(2::rat) powi (e + 1) = 2 * 2 powi e"
  by (simp add: power_int_add)

lemma powi_add: "(2::rat) powi (a + b) = 2 powi a * 2 powi b"
  by (simp add: power_int_add)

lemma powi_mono: "a \<le> b \<Longrightarrow> (2::rat) powi a \<le> 2 powi b"
  by (rule power_int_increasing) simp_all

lemma powi_less_cancel: "(2::rat) powi a < 2 powi b \<Longrightarrow> a < b"
  using powi_mono [of b a] by (cases "a < b") simp_all

lemma bitlen_powi:
  assumes "0 < a"
  shows "(2::rat) powi (bitlen a - 1) \<le> of_int a \<and> of_int a < (2::rat) powi bitlen a"
proof -
  from bitlen_bounds [OF assms]
  have l: "2 ^ nat (bitlen a - 1) \<le> a" and u: "a < 2 ^ nat (bitlen a)" by simp_all
  have p: "1 \<le> bitlen a" using assms bitlen_eq_zero_iff [of a] bitlen_nonneg [of a] by linarith
  have "(2::rat) powi (bitlen a - 1) = 2 ^ nat (bitlen a - 1)"
    using p by (simp add: power_int_def)
  also have "\<dots> = of_int (2 ^ nat (bitlen a - 1))" by simp
  also have "\<dots> \<le> of_int a" using l by (simp only: of_int_le_iff)
  finally have 1: "(2::rat) powi (bitlen a - 1) \<le> of_int a" .
  have "of_int a < (of_int (2 ^ nat (bitlen a)) :: rat)" using u by (simp only: of_int_less_iff)
  also have "\<dots> = 2 ^ nat (bitlen a)" by simp
  also have "\<dots> = 2 powi bitlen a" using p by (simp add: power_int_def)
  finally show ?thesis using 1 by simp
qed

lemma expo_bounds:
  assumes "x \<noteq> 0"
  shows "2 powi expo x \<le> \<bar>x\<bar> \<and> \<bar>x\<bar> < 2 powi (expo x + 1)"
proof -
  obtain a b where q: "quotient_of \<bar>x\<bar> = (a, b)" by (cases "quotient_of \<bar>x\<bar>")
  have b: "0 < b" using quotient_of_denom_pos [OF q] .
  have x: "\<bar>x\<bar> = of_int a / of_int b" using quotient_of_div [OF q] .
  have "0 < \<bar>x\<bar>" using assms by simp
  then have a: "0 < a" using b unfolding x by (simp add: zero_less_divide_iff)
  let ?k = "bitlen a - bitlen b"
  note A = bitlen_powi [OF a] and B = bitlen_powi [OF b]
  have bp: "(0::rat) < of_int b" using b by simp
  have up: "\<bar>x\<bar> < 2 powi (?k + 1)"
  proof -
    have "of_int a < (2::rat) powi bitlen a" using A by simp
    also have "\<dots> = 2 powi (?k + 1) * 2 powi (bitlen b - 1)"
      by (simp add: power_int_add [symmetric])
    also have "\<dots> \<le> 2 powi (?k + 1) * of_int b"
      using B powi_pos [of "?k + 1"] by (simp add: mult_left_mono)
    finally show ?thesis unfolding x using bp by (simp add: pos_divide_less_eq)
  qed
  have lo: "2 powi (?k - 1) \<le> \<bar>x\<bar>"
  proof -
    have "2 powi (?k - 1) * of_int b \<le> (2::rat) powi (?k - 1) * 2 powi bitlen b"
      using B powi_pos [of "?k - 1"] by (simp add: mult_left_mono less_imp_le)
    also have "\<dots> = 2 powi (bitlen a - 1)"
      by (simp add: power_int_add [symmetric])
    also have "\<dots> \<le> of_int a" using A by simp
    finally show ?thesis unfolding x using bp by (simp add: pos_le_divide_eq)
  qed
  show ?thesis
  proof (cases "2 powi ?k \<le> \<bar>x\<bar>")
    case True
    then have "expo x = ?k" by (simp add: expo_def q)
    then show ?thesis using True up by simp
  next
    case False
    then have "expo x = ?k - 1" by (simp add: expo_def q)
    then show ?thesis using False lo by simp
  qed
qed

lemma expo_unique:
  assumes "2 powi e \<le> \<bar>x\<bar>" "\<bar>x\<bar> < 2 powi (e + 1)"
  shows "expo x = e"
proof -
  have "0 < \<bar>x\<bar>" using assms(1) powi_pos [of e] by linarith
  then have nz: "x \<noteq> 0" by auto
  note E = expo_bounds [OF nz]
  have "2 powi e < (2::rat) powi (expo x + 1)" using assms(1) E by linarith
  then have 1: "e < expo x + 1" by (rule powi_less_cancel)
  have "2 powi expo x < (2::rat) powi (e + 1)" using assms(2) E by linarith
  then have 2: "expo x < e + 1" by (rule powi_less_cancel)
  from 1 2 show ?thesis by simp
qed

lemma roundTiesToEven_near: "\<bar>of_int (roundTiesToEven x) - x\<bar> \<le> 1 / 2"
proof -
  have f: "of_int \<lfloor>x\<rfloor> \<le> x" "x < of_int \<lfloor>x\<rfloor> + 1" by linarith+
  show ?thesis
  proof (cases "x - of_int \<lfloor>x\<rfloor> < 1 / 2 \<or> (x - of_int \<lfloor>x\<rfloor> = 1 / 2 \<and> even \<lfloor>x\<rfloor>)")
    case True
    then have "roundTiesToEven x = \<lfloor>x\<rfloor>" by (simp add: roundTiesToEven_def Let_def)
    then show ?thesis using True f by auto
  next
    case False
    then have "roundTiesToEven x = \<lfloor>x\<rfloor> + 1" by (simp add: roundTiesToEven_def Let_def)
    moreover have "1 / 2 \<le> x - of_int \<lfloor>x\<rfloor>" using False by auto
    ultimately show ?thesis using f by simp
  qed
qed

lemma roundTiesToEven_eqI:
  assumes "\<bar>x - of_int m\<bar> < 1 / 2"
  shows "roundTiesToEven x = m"
proof -
  have "\<bar>of_int (roundTiesToEven x) - (of_int m :: rat)\<bar> < 1"
    using roundTiesToEven_near [of x] assms by linarith
  then have "\<bar>(of_int (roundTiesToEven x - m) :: rat)\<bar> < 1" by simp
  then have "\<bar>roundTiesToEven x - m\<bar> < 1"
    by (metis of_int_abs of_int_less_1_iff)
  then show ?thesis by simp
qed

lemma roundTiesToEven_of_int: "roundTiesToEven (of_int m) = m"
  by (rule roundTiesToEven_eqI) simp

lemma fl_eqI:
  assumes e: "2 powi e \<le> \<bar>x\<bar>" "\<bar>x\<bar> < 2 powi (e + 1)" "- 1022 \<le> e" "e \<le> 1022"
    and m: "\<bar>x / 2 powi (e - 52) - of_int m\<bar> < 1 / 2"
  shows "fl x = Fin (of_int m * 2 powi (e - 52))"
proof -
  let ?ulp = "(2::rat) powi (e - 52)"
  have up: "0 < ?ulp" by (rule powi_pos)
  have "0 < \<bar>x\<bar>" using e(1) powi_pos [of e] by linarith
  then have nz: "x \<noteq> 0" by auto
  have ex: "expo x = e" using e(1,2) by (rule expo_unique)
  have r: "roundTiesToEven (x / ?ulp) = m" using m by (rule roundTiesToEven_eqI)
  have s: "2 powi (e + 1) = 2 ^ 53 * ?ulp"
    using powi_add [of 53 "e - 52"] by (simp add: add.commute)
  have "\<bar>x / ?ulp\<bar> < 2 ^ 53"
    using e(2) up unfolding s by (simp add: abs_divide pos_divide_less_eq abs_of_pos)
  then have "\<bar>(of_int m :: rat)\<bar> < 2 ^ 53 + 1 / 2" using m by linarith
  then have "\<bar>(of_int m :: rat)\<bar> < of_int (2 ^ 53 + 1)" by simp
  then have "\<bar>m\<bar> < 2 ^ 53 + 1" by (simp only: of_int_abs [symmetric] of_int_less_iff)
  then have "\<bar>m\<bar> \<le> 2 ^ 53" by simp
  then have "(of_int \<bar>m\<bar> :: rat) \<le> of_int (2 ^ 53)" by (simp only: of_int_le_iff)
  then have mb: "\<bar>(of_int m :: rat)\<bar> \<le> 2 ^ 53" by simp
  have "\<bar>of_int m * ?ulp\<bar> = \<bar>(of_int m :: rat)\<bar> * ?ulp"
    using up by (simp add: abs_mult abs_of_pos)
  also have "\<dots> \<le> 2 ^ 53 * ?ulp" using mb up by (simp add: mult_right_mono)
  also have "\<dots> = 2 powi (e + 1)" using s by simp
  also have "\<dots> \<le> 2 powi 1023" using e(4) by (intro powi_mono) simp
  also have "\<dots> < (2::rat) powi 1024" by (simp add: powi_Suc [of 1023, simplified])
  finally have b: "\<bar>of_int m * ?ulp\<bar> < 2 powi 1024" .
  then have "\<not> 2 powi 1024 \<le> of_int m * ?ulp" "\<not> of_int m * ?ulp \<le> - (2 powi 1024)"
    by linarith+
  then show ?thesis
    unfolding fl_def Let_def ex using nz e(3) r by (simp add: max_def)
qed

lemma fl_0: "fl 0 = Fin 0"
  by (simp add: fl_def)


lemma fl_exact:
  assumes e: "2 powi e \<le> \<bar>x\<bar>" "\<bar>x\<bar> < 2 powi (e + 1)" "- 1022 \<le> e" "e \<le> 1022"
    and m: "x = of_int m * 2 powi (e - 52)"
  shows "fl x = Fin x"
proof -
  have "x / 2 powi (e - 52) = of_int m"
    using powi_pos [of "e - 52"] by (simp add: m)
  then have "\<bar>x / 2 powi (e - 52) - of_int m\<bar> < 1 / 2" by simp
  from fl_eqI [OF e this] show ?thesis using m by simp
qed

lemma fl_of_int:
  assumes "\<bar>n\<bar> < 2 ^ 53"
  shows "fl (of_int n) = Fin (of_int n)"
proof (cases "n = 0")
  case True
  then show ?thesis by (simp add: fl_0)
next
  case False
  let ?x = "of_int n :: rat"
  let ?e = "expo ?x"
  have nz: "?x \<noteq> 0" using False by simp
  note E = expo_bounds [OF nz]
  have "1 \<le> \<bar>n\<bar>" using False by simp
  then have "(of_int 1 :: rat) \<le> of_int \<bar>n\<bar>" by (simp only: of_int_le_iff)
  then have one: "1 \<le> \<bar>?x\<bar>" by simp
  have "(of_int \<bar>n\<bar> :: rat) < of_int (2 ^ 53)" using assms by (simp only: of_int_less_iff)
  then have lt: "\<bar>?x\<bar> < 2 ^ 53" by simp
  have "(2::rat) powi 0 < 2 powi (?e + 1)" using one E by simp
  then have lo: "0 \<le> ?e" using powi_less_cancel [of 0 "?e + 1"] by simp
  have "(2::rat) powi ?e < 2 powi 53" using lt E by simp
  then have hi: "?e < 53" by (rule powi_less_cancel)
  let ?k = "nat (52 - ?e)"
  have k: "(2::rat) powi (52 - ?e) = 2 ^ ?k" using hi by (simp add: power_int_def)
  have "(2::rat) powi (52 - ?e) * 2 powi (?e - 52) = 1"
    using powi_add [of "52 - ?e" "?e - 52"] by simp
  then have "?x = of_int (n * 2 ^ ?k) * 2 powi (?e - 52)"
    unfolding k by simp
  moreover have "- 1022 \<le> ?e" "?e \<le> 1022" using lo hi by simp_all
  ultimately show ?thesis using E by (intro fl_exact [where e = ?e and m = "n * 2 ^ ?k"]) simp_all
qed

section \<open>Productivity statistics\<close>

lemma countDays_fixed:
  "countDays (fixed c) cur e n = Some (n + (if cur \<le> e then (e - cur) div msPerDay + 1 else 0))"
proof (induction "nat (e - cur + 1)" arbitrary: cur n rule: less_induct)
  case less
  show ?case
  proof (cases "cur \<le> e")
    case True
    have nx: "setDate (fixed c) cur (getDate (fixed c) cur + 1) = cur + msPerDay"
      by (simp add: setDate_eq)
    have "nat (e - (cur + msPerDay) + 1) < nat (e - cur + 1)"
      using True msPerDay_pos by simp
    from less.hyps [OF this]
    have ih: "countDays (fixed c) (cur + msPerDay) e (n + 1)
        = Some (n + 1 + (if cur + msPerDay \<le> e then (e - (cur + msPerDay)) div msPerDay + 1 else 0))" .
    have st: "countDays (fixed c) cur e n = countDays (fixed c) (cur + msPerDay) e (n + 1)"
      using True by (subst countDays.simps) (simp add: nx)
    have "(if cur + msPerDay \<le> e then (e - (cur + msPerDay)) div msPerDay + 1 else 0)
        = (e - cur) div msPerDay"
    proof (cases "cur + msPerDay \<le> e")
      case T: True
      have "(e - (cur + msPerDay)) div msPerDay = (e - cur + (- 1) * msPerDay) div msPerDay"
        by (simp add: algebra_simps)
      also have "\<dots> = (e - cur) div msPerDay - 1"
        using Day_add_days [of "e - cur" "- 1"] by (simp add: Day_def)
      finally show ?thesis using T by simp
    next
      case F: False
      then have "0 \<le> e - cur" "e - cur < msPerDay" using True by simp_all
      then have "(e - cur) div msPerDay = 0" by simp
      then show ?thesis using F by simp
    qed
    then show ?thesis unfolding st ih using True by simp
  next
    case False
    then show ?thesis by (subst countDays.simps) simp
  qed
qed

lemma countDays_iso:
  "countDays (fixed c) (Date_iso s) (Date_iso e) n = Some (n + daysInRange s e)"
proof -
  have le: "Date_iso s \<le> Date_iso e \<longleftrightarrow> s \<le> e"
    using msPerDay_pos by (simp add: Date_iso_def MakeDate_def)
  have "Date_iso e - Date_iso s = (e - s) * msPerDay"
    by (simp add: Date_iso_def MakeDate_def algebra_simps)
  then have "(Date_iso e - Date_iso s) div msPerDay = e - s"
    using msPerDay_pos by simp
  then show ?thesis
    by (simp add: countDays_fixed le daysInRange_def)
qed

lemma fold_count:
  "fold (\<lambda>date c. if P date then c + 1 else c) ds (n :: int) = n + int (length (filter P ds))"
  by (induction ds arbitrary: n) simp_all

lemma habits_forEach_fixed:
  "habits_forEach (fixed c) s e hs (k, p)
     = Some (k + (\<Sum>h\<leftarrow>hs. completionsInRange s e h), p + int (length hs) * daysInRange s e)"
  by (induction hs arbitrary: k p)
    (simp_all add: Let_def fold_count countDays_iso completionsInRange_def algebra_simps)

text \<open>
  In a zone with a fixed offset the counters are as the specification says. For every
  list of habits and every inclusive range from \<open>startDate\<close> to \<open>endDate\<close>: the loops end,
  the counters are the total number of completions in the range and
  \<open>numberOfHabits * daysInRange\<close> (every habit counts every day, whatever its frequency:
  changing the frequencies changes nothing), and \<open>habitCompletionRate\<close> is \<open>Math.round\<close> of
  the double \<open>total / possible * 100\<close>, or 0 when the possible days are 0.
\<close>

lemma habit_completion_rate_fixed:
  assumes "startDate \<le> endDate"
  shows "habits_forEach (fixed c) startDate endDate habits (0, 0)
           = Some ((\<Sum>h\<leftarrow>habits. completionsInRange startDate endDate h),
                   int (length habits) * (endDate - startDate + 1))
    \<and> map_option habitCompletionRate (getProductivityStats (fixed c) startDate endDate habits)
         = Some (if int (length habits) * (endDate - startDate + 1) = 0 then Fin 0
            else Math_round
              (times_number
                 (divide_number
                    (Fin (of_int (\<Sum>h\<leftarrow>habits. completionsInRange startDate endDate h)))
                    (Fin (of_int (int (length habits) * (endDate - startDate + 1)))))
                 (Fin 100)))
    \<and> getProductivityStats (fixed c) startDate endDate
           (map (\<lambda>h. h\<lparr>habit_frequency := f h\<rparr>) habits)
         = getProductivityStats (fixed c) startDate endDate habits"
proof -
  have d: "daysInRange startDate endDate = endDate - startDate + 1"
    using assms by (simp add: daysInRange_def)
  have a: "habits_forEach (fixed c) startDate endDate hs (0, 0)
           = Some ((\<Sum>h\<leftarrow>hs. completionsInRange startDate endDate h),
                   int (length hs) * (endDate - startDate + 1))" for hs
    by (simp add: habits_forEach_fixed d)
  have pos: "0 \<le> int (length habits) * (endDate - startDate + 1)"
    using assms by simp
  have b: "map_option habitCompletionRate (getProductivityStats (fixed c) startDate endDate habits)
         = Some (if int (length habits) * (endDate - startDate + 1) = 0 then Fin 0
            else Math_round
              (times_number
                 (divide_number
                    (Fin (of_int (\<Sum>h\<leftarrow>habits. completionsInRange startDate endDate h)))
                    (Fin (of_int (int (length habits) * (endDate - startDate + 1)))))
                 (Fin 100)))"
    unfolding getProductivityStats_def a using pos by (simp add: less_le)
  have "(\<Sum>h\<leftarrow>map (\<lambda>h. h\<lparr>habit_frequency := f h\<rparr>) habits. completionsInRange startDate endDate h)
      = (\<Sum>h\<leftarrow>habits. completionsInRange startDate endDate h)"
    by (simp add: completionsInRange_def comp_def)
  then have c: "getProductivityStats (fixed c) startDate endDate
           (map (\<lambda>h. h\<lparr>habit_frequency := f h\<rparr>) habits)
         = getProductivityStats (fixed c) startDate endDate habits"
    unfolding getProductivityStats_def a by simp
  from a [of habits] b c show ?thesis by blast
qed

lemma rate_3_of_2:
  "Math_round (times_number (divide_number (Fin 3) (Fin 2)) (Fin 100)) = Fin 150"
proof -
  have "fl (3 / 2) = Fin (of_int 6755399441055744 * 2 powi (0 - 52))"
    by (rule fl_eqI) (simp_all add: power_int_minus_divide)
  then have a: "divide_number (Fin 3) (Fin 2) = Fin (3 / 2)"
    by (simp add: divide_number_def power_int_minus_divide)
  have b: "times_number (Fin (3 / 2)) (Fin 100) = Fin 150"
    using fl_of_int [of 150] by (simp add: times_number_def)
  have c: "\<lfloor>301 / 2 :: rat\<rfloor> = 150"
    by (rule floor_unique) simp_all
  show ?thesis unfolding a b by (simp add: Math_round_def c)
qed

lemma rate_3_of_3:
  "Math_round (times_number (divide_number (Fin 3) (Fin 3)) (Fin 100)) = Fin 100"
proof -
  have a: "divide_number (Fin 3) (Fin 3) = Fin 1"
    using fl_of_int [of 1] by (simp add: divide_number_def)
  have b: "times_number (Fin 1) (Fin 100) = Fin 100"
    using fl_of_int [of 100] by (simp add: times_number_def)
  have c: "\<lfloor>201 / 2 :: rat\<rfloor> = 100"
    by (rule floor_unique) simp_all
  show ?thesis unfolding a b by (simp add: Math_round_def c)
qed

lemma rate_23_of_40:
  "Math_round (times_number (divide_number (Fin 23) (Fin 40)) (Fin 100)) = Fin 57"
proof -
  have "fl (23 / 40) = Fin (of_int 5179139571476070 * 2 powi (- 1 - 52))"
    by (rule fl_eqI) (simp_all add: power_int_minus_divide)
  then have a: "divide_number (Fin 23) (Fin 40) = Fin (5179139571476070 / 9007199254740992)"
    by (simp add: divide_number_def power_int_minus_divide)
  have "fl (5179139571476070 / 9007199254740992 * 100)
          = Fin (of_int 8092405580431359 * 2 powi (5 - 52))"
    by (rule fl_eqI) (simp_all add: power_int_minus_divide)
  then have b: "times_number (Fin (5179139571476070 / 9007199254740992)) (Fin 100)
      = Fin (8092405580431359 / 140737488355328)"
    by (simp add: times_number_def power_int_minus_divide)
  have c: "\<lfloor>8162774324609023 / 140737488355328 :: rat\<rfloor> = 57"
    by (rule floor_unique) simp_all
  show ?thesis unfolding a b by (simp add: Math_round_def c)
qed

lemma countDays_dst_end:
  "countDays eastern2026 (Date_iso 20757) (Date_iso 20759) n = Some (n + 2)"
proof -
  have s: "Date_iso 20757 = 1793404800000" and e: "Date_iso 20759 = 1793577600000"
    by (simp_all add: Date_iso_def MakeDate_def msPerDay_def)
  have l1: "LocalTime eastern2026 1793404800000 = 1793390400000"
    and l2: "LocalTime eastern2026 1793491200000 = 1793476800000"
    by (simp_all add: LocalTime_def eastern2026_def)
  have d1: "Day 1793390400000 = 20756" "TimeWithinDay 1793390400000 = 72000000"
    and d2: "Day 1793476800000 = 20757" "TimeWithinDay 1793476800000 = 72000000"
    by (simp_all add: Day_def TimeWithinDay_def msPerDay_def)
  have y: "YearFromDay 20756 = 2026" "YearFromDay 20757 = 2026"
    by (simp_all add: YearFromDay_def DayFromYear_def Let_def)
  have m: "MonthFromTime 1793390400000 = 9" "MonthFromTime 1793476800000 = 9"
    by (simp_all add: MonthFromTime_def DayWithinYear_def InLeapYear_def YearFromTime_def d1 d2 y
        DaysInYear_def DayFromYear_def Let_def)
  have g: "getDate eastern2026 1793404800000 = 30" "getDate eastern2026 1793491200000 = 31"
    by (simp_all add: getDate_def l1 l2 DateFromTime_def m DayWithinYear_def InLeapYear_def
        YearFromTime_def d1 d2 y DaysInYear_def DayFromYear_def Let_def)
  have k: "MakeDay 2026 9 31 = 20757" "MakeDay 2026 9 32 = 20758"
    by (simp_all add: MakeDay_def monthStart_def DaysInYear_def DayFromYear_def Let_def)
  have u: "UTC eastern2026 (MakeDate 20757 72000000) = 1793491200000"
    "UTC eastern2026 (MakeDate 20758 72000000) = 1793581200000"
    by (simp_all add: UTC_def MakeDate_def msPerDay_def eastern2026_def)
  have p: "setDate eastern2026 1793404800000 31 = 1793491200000"
    "setDate eastern2026 1793491200000 32 = 1793581200000"
    by (simp_all add: setDate_def l1 l2 d1 d2 y m k u YearFromTime_def Let_def)
  have c3: "countDays eastern2026 1793581200000 1793577600000 k = Some k" for k
    by (subst countDays.simps) simp
  have c2: "countDays eastern2026 1793491200000 1793577600000 k = Some (k + 1)" for k
    by (subst countDays.simps) (simp add: g p c3)
  have c1: "countDays eastern2026 1793404800000 1793577600000 k = Some (k + 2)" for k
    by (subst countDays.simps) (simp add: g p c2)
  show ?thesis unfolding s e by (rule c1)
qed

text \<open>
  Claim C7 does not hold of the code in a zone with daylight saving: a code defect. The
  \<open>while\<close> loop starts at midnight UTC of \<open>startDate\<close> and steps by one local day
  (\<open>setDate\<close>); after the end of daylight saving a local day later is 01:00Z, past the
  midnight UTC of \<open>endDate\<close>, so the last day is not counted. In US Eastern time the range
  from 2026-10-31 to 2026-11-02 (days 20757 to 20759) has 3 days and the loop counts 2:
  a habit completed on each of the three days has the rate 150, where a zone with a
  fixed offset gives 100. Besides, the rate is rounded from a double: 23 completions of
  40 possible days give 57, the double of \<open>23 / 40 * 100\<close> being just below 57.5, where
  the exact quotient rounds to 58.
\<close>

theorem habit_rate_short_at_dst_end:
  "daysInRange 20757 20759 = 3
   \<and> countDays eastern2026 (Date_iso 20757) (Date_iso 20759) 0 = Some 2
   \<and> countDays (fixed 0) (Date_iso 20757) (Date_iso 20759) 0 = Some 3
   \<and> map_option habitCompletionRate
        (getProductivityStats eastern2026 20757 20759
           [\<lparr>habit_id = ''a'', habit_createdAt = ''2026-10-30T08:00:00.000Z'',
             completedDates = [20757, 20758, 20759], currentStreak = 3, longestStreak = 3,
             habit_name = Some ''read'', habit_frequency = Some ''daily''\<rparr>]) = Some (Fin 150)
   \<and> map_option habitCompletionRate
        (getProductivityStats (fixed 0) 20757 20759
           [\<lparr>habit_id = ''a'', habit_createdAt = ''2026-10-30T08:00:00.000Z'',
             completedDates = [20757, 20758, 20759], currentStreak = 3, longestStreak = 3,
             habit_name = Some ''read'', habit_frequency = Some ''daily''\<rparr>]) = Some (Fin 100)
   \<and> Math_round (times_number (divide_number (Fin 23) (Fin 40)) (Fin 100)) = Fin 57
   \<and> \<lfloor>23 / 40 * 100 + 1 / 2 :: rat\<rfloor> = 58"
proof -
  have a: "daysInRange 20757 20759 = 3"
    by (simp add: daysInRange_def)
  have b: "countDays eastern2026 (Date_iso 20757) (Date_iso 20759) 0 = Some 2"
    using countDays_dst_end [of 0] by simp
  have c: "countDays (fixed 0) (Date_iso 20757) (Date_iso 20759) 0 = Some 3"
    by (simp add: countDays_iso a)
  have d: "map_option habitCompletionRate
        (getProductivityStats eastern2026 20757 20759
           [\<lparr>habit_id = ''a'', habit_createdAt = ''2026-10-30T08:00:00.000Z'',
             completedDates = [20757, 20758, 20759], currentStreak = 3, longestStreak = 3,
             habit_name = Some ''read'', habit_frequency = Some ''daily''\<rparr>]) = Some (Fin 150)"
    by (simp add: getProductivityStats_def Let_def b rate_3_of_2)
  have e: "map_option habitCompletionRate
        (getProductivityStats (fixed 0) 20757 20759
           [\<lparr>habit_id = ''a'', habit_createdAt = ''2026-10-30T08:00:00.000Z'',
             completedDates = [20757, 20758, 20759], currentStreak = 3, longestStreak = 3,
             habit_name = Some ''read'', habit_frequency = Some ''daily''\<rparr>]) = Some (Fin 100)"
    by (simp add: getProductivityStats_def Let_def c rate_3_of_3)
  have f: "\<lfloor>23 / 40 * 100 + 1 / 2 :: rat\<rfloor> = 58"
    by (rule floor_unique) simp_all
  show ?thesis
    using a b c d e rate_23_of_40 f by simp
qed

section \<open>Tasks, export and import\<close>

lemma map_of_update_fold:
  "map_of (fold (\<lambda>(k, v). AList.update k v) kvs acc) = map_of acc ++ map_of (rev kvs)"
proof (induction kvs arbitrary: acc)
  case Nil
  then show ?case by simp
next
  case (Cons kv kvs)
  obtain k v where kv: "kv = (k, v)" by (cases kv)
  have "map_of (fold (\<lambda>(k, v). AList.update k v) (kv # kvs) acc)
      = map_of (AList.update k v acc) ++ map_of (rev kvs)"
    by (simp add: kv Cons.IH)
  also have "\<dots> = map_of acc ++ map_of (rev (kv # kvs))"
    by (rule ext) (simp add: kv update_conv' map_add_def split: option.splits)
  finally show ?case .
qed

lemma map_of_object_literal: "map_of (object_literal kvs) = map_of (rev kvs)"
  by (simp add: object_literal_def map_of_update_fold)

lemma distinct_update_fold:
  "distinct (map fst acc) \<Longrightarrow> distinct (map fst (fold (\<lambda>(k, v). AList.update k v) kvs acc))"
  by (induction kvs arbitrary: acc) (auto simp: distinct_update)

lemma distinct_object_literal: "distinct (map fst (object_literal kvs))"
  by (simp add: object_literal_def distinct_update_fold)

lemma map_of_rev_distinct:
  "distinct (map fst kvs) \<Longrightarrow> map_of (rev kvs) = map_of kvs"
  by (rule ext) (metis map_of_eq_None_iff map_of_is_SomeI map_of_SomeD option.exhaust set_rev)

lemma getTasks_set: "getTasks (Storage_set KEYS_TASKS (JArr xs) s) = JArr xs"
  by (simp add: getTasks_def Storage_get_def Storage_set_def)

lemma findIndex_ge: "findIndex_id ident tasks = Inr i \<Longrightarrow> - 1 \<le> i"
proof (induction tasks arbitrary: i)
  case Nil
  then show ?case by simp
next
  case (Cons t ts)
  show ?case
  proof (cases "findIndex_id ident ts")
    case (Inl e)
    with Cons.prems show ?thesis by (auto split: sum.splits if_splits)
  next
    case (Inr j)
    from Cons.IH [OF this] have "- 1 \<le> j" .
    with Cons.prems Inr show ?thesis by (auto split: sum.splits if_splits)
  qed
qed

lemma findIndex_none:
  "findIndex_id ident tasks = Inr (- 1)
    \<longleftrightarrow> (\<forall>t\<in>set tasks. t \<noteq> JNull \<and> get_prop t ''id'' \<noteq> Inr (Some (JStr ident)))"
proof (induction tasks)
  case Nil
  then show ?case by simp
next
  case (Cons t ts)
  show ?case
  proof (cases "get_prop t ''id''")
    case (Inl e)
    then have "t = JNull" by (cases t) simp_all
    then show ?thesis by simp
  next
    case (Inr v)
    then have nn: "t \<noteq> JNull" by auto
    show ?thesis
    proof (cases "v = Some (JStr ident)")
      case True
      then show ?thesis using Inr by simp
    next
      case False
      show ?thesis
      proof (cases "findIndex_id ident ts")
        case (Inl e)
        then have "findIndex_id ident (t # ts) = Inl e" using Inr False by simp
        moreover have "findIndex_id ident ts \<noteq> Inr (- 1)" using Inl by simp
        ultimately show ?thesis using Cons.IH Inr nn False by auto
      next
        case r: (Inr i)
        from findIndex_ge [OF r] have "- 1 \<le> i" .
        then have "findIndex_id ident (t # ts) = Inr (- 1) \<longleftrightarrow> i = - 1"
          using Inr False r by auto
        then show ?thesis using Cons.IH Inr nn False r by auto
      qed
    qed
  qed
qed

lemma findIndex_found:
  assumes "findIndex_id ident tasks = Inr i" "i \<noteq> - 1"
  shows "0 \<le> i \<and> nat i < length tasks
    \<and> get_prop (tasks ! nat i) ''id'' = Inr (Some (JStr ident))"
  using assms
proof (induction tasks arbitrary: i)
  case Nil
  then show ?case by simp
next
  case (Cons t ts)
  show ?case
  proof (cases "get_prop t ''id''")
    case (Inl e)
    with Cons.prems show ?thesis by simp
  next
    case (Inr v)
    show ?thesis
    proof (cases "v = Some (JStr ident)")
      case True
      with Cons.prems Inr show ?thesis by simp
    next
      case False
      have "\<exists>j. findIndex_id ident ts = Inr j \<and> j \<noteq> - 1 \<and> i = j + 1"
      proof (cases "findIndex_id ident ts")
        case (Inl e)
        then show ?thesis using Cons.prems Inr False by simp
      next
        case r: (Inr j)
        then have "i = (if j = - 1 then - 1 else j + 1)"
          using Cons.prems(1) Inr False by simp
        then show ?thesis using r Cons.prems(2) by (cases "j = - 1") simp_all
      qed
      then obtain j where j: "findIndex_id ident ts = Inr j" "j \<noteq> - 1" "i = j + 1"
        by blast
      from Cons.IH [OF j(1,2)] have "0 \<le> j" "nat j < length ts"
        "get_prop (ts ! nat j) ''id'' = Inr (Some (JStr ident))"
        by simp_all
      moreover have "nat (j + 1) = Suc (nat j)" using \<open>0 \<le> j\<close> by simp
      ultimately show ?thesis using j(3) by simp
    qed
  qed
qed

lemma findIndex_update:
  assumes "findIndex_id ident tasks = Inr i" "i \<noteq> - 1"
    and "get_prop t' ''id'' = Inr (Some (JStr ident))"
  shows "findIndex_id ident (tasks[nat i := t']) = Inr i"
  using assms(1,2)
proof (induction tasks arbitrary: i)
  case Nil
  then show ?case by simp
next
  case (Cons t ts)
  show ?case
  proof (cases "get_prop t ''id''")
    case (Inl e)
    with Cons.prems show ?thesis by simp
  next
    case (Inr v)
    show ?thesis
    proof (cases "v = Some (JStr ident)")
      case True
      with Cons.prems Inr have "i = 0" by simp
      then show ?thesis using assms(3) by simp
    next
      case False
      have "\<exists>j. findIndex_id ident ts = Inr j \<and> j \<noteq> - 1 \<and> i = j + 1"
      proof (cases "findIndex_id ident ts")
        case (Inl e)
        then show ?thesis using Cons.prems Inr False by simp
      next
        case r: (Inr j)
        then have "i = (if j = - 1 then - 1 else j + 1)"
          using Cons.prems(1) Inr False by simp
        then show ?thesis using r Cons.prems(2) by (cases "j = - 1") simp_all
      qed
      then obtain j where j: "findIndex_id ident ts = Inr j" "j \<noteq> - 1" "i = j + 1"
        by blast
      from findIndex_found [OF j(1,2)] have "0 \<le> j" by simp
      then have n: "nat (j + 1) = Suc (nat j)" by simp
      show ?thesis
        using Cons.IH [OF j(1,2)] Inr False j(2,3) by (simp add: n)
    qed
  qed
qed

lemma get_prop_Some:
  "get_prop t k = Inr (Some v) \<Longrightarrow> \<exists>kvs. t = JObj kvs \<and> map_of kvs k = Some v"
  by (cases t) simp_all

text \<open>
  Claim C8. For every tasks collection (\<open>getTasks\<close> gives an array, empty when the key is
  absent; its elements are not \<open>null\<close>) and every id that none of its elements has,
  \<open>updateTask\<close> does not throw, returns \<open>null\<close>, and returns the store as it was.
\<close>

theorem update_missing_task:
  assumes "getTasks s = JArr tasks"
    and "\<forall>t\<in>set tasks. t \<noteq> JNull \<and> get_prop t ''id'' \<noteq> Inr (Some (JStr ident))"
  shows "updateTask ident updates nowISO s = Inr (JNull, s)"
proof -
  from assms(2) have "findIndex_id ident tasks = Inr (- 1)"
    by (simp add: findIndex_none)
  then show ?thesis
    by (simp add: updateTask_def assms(1))
qed

theorem update_missing_task_witness:
  "getTasks (Map.empty(''zenith_tasks'' \<mapsto> JArr [JObj [(''id'', JStr ''a''), (''title'', JStr ''x'')]]))
     = JArr [JObj [(''id'', JStr ''a''), (''title'', JStr ''x'')]]
   \<and> updateTask ''b'' [(''completed'', JBool True)] ''2026-01-12T10:00:00.000Z''
       (Map.empty(''zenith_tasks'' \<mapsto> JArr [JObj [(''id'', JStr ''a''), (''title'', JStr ''x'')]]))
     = Inr (JNull,
         Map.empty(''zenith_tasks'' \<mapsto> JArr [JObj [(''id'', JStr ''a''), (''title'', JStr ''x'')]]))
   \<and> getTasks Map.empty = JArr []
   \<and> updateTask ''b'' [(''completed'', JBool True)] ''2026-01-12T10:00:00.000Z'' Map.empty
     = Inr (JNull, Map.empty)"
proof -
  have g: "getTasks (Map.empty(''zenith_tasks'' \<mapsto> JArr [JObj [(''id'', JStr ''a''), (''title'', JStr ''x'')]]))
     = JArr [JObj [(''id'', JStr ''a''), (''title'', JStr ''x'')]]"
    by (simp add: getTasks_def Storage_get_def KEYS_TASKS_def)
  have e: "getTasks Map.empty = JArr []"
    by (simp add: getTasks_def Storage_get_def)
  show ?thesis
    using update_missing_task [OF g, of "''b''" "[(''completed'', JBool True)]"
        "''2026-01-12T10:00:00.000Z''"]
      update_missing_task [OF e, of "''b''" "[(''completed'', JBool True)]"
        "''2026-01-12T10:00:00.000Z''"] g e
    by simp
qed

text \<open>
  Claim C10. \<open>addTask\<close> returns, and appends to the stored collection, the object whose
  every property is the argument's when the argument has it and otherwise the default
  (\<open>id\<close> generated, \<open>createdAt\<close> the clock, \<open>completed\<close> false, \<open>completedAt\<close> null): an
  argument that supplies \<open>completed\<close>, \<open>completedAt\<close>, \<open>createdAt\<close> or \<open>id\<close> overrides the
  default.
\<close>

theorem add_task_defaults_overridden:
  assumes "getTasks s = JArr tasks" and "distinct (map fst task)"
  shows "\<exists>newTask.
      addTask task newId nowISO s
        = Inr (JObj newTask, Storage_set KEYS_TASKS (JArr (tasks @ [JObj newTask])) s)
      \<and> getTasks (Storage_set KEYS_TASKS (JArr (tasks @ [JObj newTask])) s)
          = JArr (tasks @ [JObj newTask])
      \<and> distinct (map fst newTask)
      \<and> (\<forall>k. map_of newTask k =
            (case map_of task k of
               Some v \<Rightarrow> Some v
             | None \<Rightarrow> map_of [(''id'', JStr newId), (''createdAt'', JStr nowISO),
                               (''completed'', JBool False), (''completedAt'', JNull)] k))"
proof -
  let ?defaults = "[(''id'', JStr newId), (''createdAt'', JStr nowISO),
      (''completed'', JBool False), (''completedAt'', JNull)]"
  define newTask where "newTask = object_literal (?defaults @ task)"
  have d: "distinct (map fst ?defaults)" by simp
  have a: "addTask task newId nowISO s
      = Inr (JObj newTask, Storage_set KEYS_TASKS (JArr (tasks @ [JObj newTask])) s)"
    by (simp add: addTask_def assms(1) newTask_def Let_def)
  have g: "getTasks (Storage_set KEYS_TASKS (JArr (tasks @ [JObj newTask])) s)
      = JArr (tasks @ [JObj newTask])"
    by (rule getTasks_set)
  have dn: "distinct (map fst newTask)"
    unfolding newTask_def by (rule distinct_object_literal)
  have "map_of newTask = map_of (rev ?defaults) ++ map_of (rev task)"
    unfolding newTask_def map_of_object_literal by simp
  also have "\<dots> = map_of ?defaults ++ map_of task"
    using map_of_rev_distinct [OF assms(2)] map_of_rev_distinct [OF d] by simp
  finally have m: "\<forall>k. map_of newTask k
      = (case map_of task k of Some v \<Rightarrow> Some v | None \<Rightarrow> map_of ?defaults k)"
    by (simp add: map_add_def split: option.splits)
  from a g dn m show ?thesis by blast
qed

theorem add_task_defaults_overridden_witness:
  "getTasks Map.empty = JArr []
   \<and> distinct (map fst [(''title'', JStr ''Write report''), (''completed'', JBool True),
        (''id'', JStr ''mine'')])
   \<and> addTask [(''title'', JStr ''Write report''), (''completed'', JBool True),
        (''id'', JStr ''mine'')] ''k1'' ''2026-01-12T10:00:00.000Z'' Map.empty
     = Inr (JObj [(''id'', JStr ''mine''), (''createdAt'', JStr ''2026-01-12T10:00:00.000Z''),
                  (''completed'', JBool True), (''completedAt'', JNull),
                  (''title'', JStr ''Write report'')],
            Storage_set KEYS_TASKS
              (JArr [JObj [(''id'', JStr ''mine''),
                           (''createdAt'', JStr ''2026-01-12T10:00:00.000Z''),
                           (''completed'', JBool True), (''completedAt'', JNull),
                           (''title'', JStr ''Write report'')]]) Map.empty)"
proof -
  have e: "getTasks Map.empty = JArr []"
    by (simp add: getTasks_def Storage_get_def)
  have d: "distinct (map fst [(''title'', JStr ''Write report''), (''completed'', JBool True),
        (''id'', JStr ''mine'')])"
    by simp
  note w = add_task_defaults_overridden [OF e d, of "''k1''" "''2026-01-12T10:00:00.000Z''"]
  have "addTask [(''title'', JStr ''Write report''), (''completed'', JBool True),
        (''id'', JStr ''mine'')] ''k1'' ''2026-01-12T10:00:00.000Z'' Map.empty
     = Inr (JObj [(''id'', JStr ''mine''), (''createdAt'', JStr ''2026-01-12T10:00:00.000Z''),
                  (''completed'', JBool True), (''completedAt'', JNull),
                  (''title'', JStr ''Write report'')],
            Storage_set KEYS_TASKS
              (JArr [JObj [(''id'', JStr ''mine''),
                           (''createdAt'', JStr ''2026-01-12T10:00:00.000Z''),
                           (''completed'', JBool True), (''completedAt'', JNull),
                           (''title'', JStr ''Write report'')]]) Map.empty)"
    by (simp add: addTask_def e object_literal_def Let_def)
  with w e d show ?thesis by simp
qed

lemma findTask_SomeD:
  assumes "findTask ident s = Some t"
  shows "\<exists>tasks i. getTasks s = JArr tasks \<and> findIndex_id ident tasks = Inr i \<and> i \<noteq> - 1
          \<and> tasks ! nat i = JObj t"
proof -
  from assms obtain tasks where g: "getTasks s = JArr tasks"
    by (cases "getTasks s") (simp_all add: findTask_def)
  from assms g obtain i where i: "findIndex_id ident tasks = Inr i"
    by (cases "findIndex_id ident tasks") (simp_all add: findTask_def)
  from assms g i have ne: "i \<noteq> - 1"
    by (auto simp: findTask_def)
  from assms g i ne have "tasks ! nat i = JObj t"
    by (cases "tasks ! nat i") (simp_all add: findTask_def)
  with g i ne show ?thesis by blast
qed

lemma update_found:
  assumes f: "findTask ident s = Some t" and d: "distinct (map fst t)"
  shows "\<exists>t' s'. updateTask ident [(''completed'', JBool b)] nowISO s = Inr (JObj t', s')
      \<and> findTask ident s' = Some t' \<and> distinct (map fst t')
      \<and> map_of t' ''completed'' = Some (JBool b)
      \<and> map_of t' ''completedAt''
          = (if b \<and> \<not> truthy_prop (map_of t ''completedAt'') then Some (JStr nowISO)
             else map_of t ''completedAt'')
      \<and> (\<forall>k. k \<noteq> ''completed'' \<and> k \<noteq> ''completedAt'' \<longrightarrow> map_of t' k = map_of t k)"
proof -
  from findTask_SomeD [OF f] obtain tasks i where
    g: "getTasks s = JArr tasks" and i: "findIndex_id ident tasks = Inr i" and ne: "i \<noteq> - 1"
    and ti: "tasks ! nat i = JObj t"
    by blast
  from findIndex_found [OF i ne] ti have bound: "nat i < length tasks"
    and tid: "map_of t ''id'' = Some (JStr ident)"
    by simp_all
  define t1 where "t1 = object_literal (t @ [(''completed'', JBool b)])"
  define t2 where "t2 = (if b \<and> \<not> truthy_prop (map_of t1 ''completedAt'')
      then AList.update ''completedAt'' (JStr nowISO) t1 else t1)"
  define s' where "s' = Storage_set KEYS_TASKS (JArr (tasks[nat i := JObj t2])) s"
  have m1: "map_of t1 = (map_of t)(''completed'' \<mapsto> JBool b)"
    by (simp add: t1_def map_of_object_literal map_of_rev_distinct [OF d])
  have d1: "distinct (map fst t1)"
    unfolding t1_def by (rule distinct_object_literal)
  have m2: "map_of t2 = (if b \<and> \<not> truthy_prop (map_of t ''completedAt'')
      then (map_of t)(''completed'' \<mapsto> JBool b, ''completedAt'' \<mapsto> JStr nowISO)
      else (map_of t)(''completed'' \<mapsto> JBool b))"
    by (simp add: t2_def m1 update_conv')
  have d2: "distinct (map fst t2)"
    using d1 by (simp add: t2_def distinct_update)
  have tp: "truthy_prop (map_of [(''completed'', JBool b)] ''completed'') = b"
    by (simp add: truthy_prop_def)
  have u: "updateTask ident [(''completed'', JBool b)] nowISO s = Inr (JObj t2, s')"
    unfolding updateTask_def g Let_def tp s'_def t2_def t1_def
    using ne by (cases b) (simp_all add: i ti)
  have "map_of t2 ''id'' = Some (JStr ident)"
    using tid by (simp add: m2)
  then have "get_prop (JObj t2) ''id'' = Inr (Some (JStr ident))" by simp
  from findIndex_update [OF i ne this]
  have "findTask ident s' = Some t2"
    using ne bound by (simp add: findTask_def s'_def getTasks_set)
  moreover have "map_of t2 ''completed'' = Some (JBool b)"
    "map_of t2 ''completedAt''
          = (if b \<and> \<not> truthy_prop (map_of t ''completedAt'') then Some (JStr nowISO)
             else map_of t ''completedAt'')"
    "\<forall>k. k \<noteq> ''completed'' \<and> k \<noteq> ''completedAt'' \<longrightarrow> map_of t2 k = map_of t k"
    by (simp_all add: m2)
  ultimately show ?thesis using u d2 by blast
qed

lemma completions_keep:
  assumes "findTask ident s = Some t" "distinct (map fst t)"
    "truthy_prop (map_of t ''completedAt'')"
  shows "\<exists>s' t'. completions ident calls s = Inr s' \<and> findTask ident s' = Some t'
      \<and> map_of t' ''completedAt'' = map_of t ''completedAt''"
  using assms
proof (induction calls arbitrary: s t)
  case Nil
  then show ?case by simp
next
  case (Cons c calls)
  obtain b nowISO where c: "c = (b, nowISO)" by (cases c)
  from update_found [OF Cons.prems(1,2), of b nowISO] obtain t' s' where
    u: "updateTask ident [(''completed'', JBool b)] nowISO s = Inr (JObj t', s')"
    and f: "findTask ident s' = Some t'" and d: "distinct (map fst t')"
    and k: "map_of t' ''completedAt'' = map_of t ''completedAt''"
    using Cons.prems(3) by auto
  have "truthy_prop (map_of t' ''completedAt'')" using k Cons.prems(3) by simp
  from Cons.IH [OF f d this] obtain s'' t'' where
    "completions ident calls s' = Inr s''" "findTask ident s'' = Some t''"
    "map_of t'' ''completedAt'' = map_of t' ''completedAt''"
    by blast
  then show ?case using u k by (auto simp: c)
qed

text \<open>
  Claim C6. For an existing task and the patch \<open>{completed: b}\<close>: the updated task has
  \<open>completed = b\<close>; its \<open>completedAt\<close> becomes the clock only when \<open>b\<close> is true and the
  present \<open>completedAt\<close> is falsy (\<open>null\<close> is), and is the present value otherwise, so
  \<open>completed = false\<close> never changes it; every other property is kept. A stamp is non-empty,
  hence truthy, and a truthy \<open>completedAt\<close> stays the same value after any sequence of such
  calls: it is stamped at most once and never reset.
\<close>

theorem completedAt_stamped_once:
  assumes "findTask ident s = Some t" and "distinct (map fst t)"
  shows "(\<exists>t' s'. updateTask ident [(''completed'', JBool b)] nowISO s = Inr (JObj t', s')
      \<and> findTask ident s' = Some t' \<and> distinct (map fst t')
      \<and> map_of t' ''completed'' = Some (JBool b)
      \<and> map_of t' ''completedAt''
          = (if b \<and> \<not> truthy_prop (map_of t ''completedAt'') then Some (JStr nowISO)
             else map_of t ''completedAt'')
      \<and> (\<forall>k. k \<noteq> ''completed'' \<and> k \<noteq> ''completedAt'' \<longrightarrow> map_of t' k = map_of t k))
    \<and> (map_of t ''completedAt'' = Some JNull \<longrightarrow> \<not> truthy_prop (map_of t ''completedAt''))
    \<and> (nowISO \<noteq> [] \<longrightarrow> truthy_prop (Some (JStr nowISO)))
    \<and> (truthy_prop (map_of t ''completedAt'')
        \<longrightarrow> (\<exists>s' t'. completions ident calls s = Inr s' \<and> findTask ident s' = Some t'
              \<and> map_of t' ''completedAt'' = map_of t ''completedAt''))"
  using update_found [OF assms, of b nowISO] completions_keep [OF assms, of calls]
  by (simp add: truthy_prop_def)

theorem completedAt_stamped_once_witness:
  "findTask ''a'' (Map.empty(''zenith_tasks'' \<mapsto>
       JArr [JObj [(''id'', JStr ''a''), (''completed'', JBool False), (''completedAt'', JNull)]]))
     = Some [(''id'', JStr ''a''), (''completed'', JBool False), (''completedAt'', JNull)]
   \<and> (case completions ''a'' [(True, ''2026-01-12T10:00:00.000Z'')]
        (Map.empty(''zenith_tasks'' \<mapsto>
          JArr [JObj [(''id'', JStr ''a''), (''completed'', JBool False), (''completedAt'', JNull)]]))
       of Inl e \<Rightarrow> None | Inr s' \<Rightarrow> findTask ''a'' s')
     = Some [(''id'', JStr ''a''), (''completed'', JBool True),
             (''completedAt'', JStr ''2026-01-12T10:00:00.000Z'')]
   \<and> (case completions ''a'' [(True, ''2026-01-12T10:00:00.000Z''), (False, ''2026-01-12T11:00:00.000Z''),
          (True, ''2026-01-12T12:00:00.000Z'')]
        (Map.empty(''zenith_tasks'' \<mapsto>
          JArr [JObj [(''id'', JStr ''a''), (''completed'', JBool False), (''completedAt'', JNull)]]))
       of Inl e \<Rightarrow> None | Inr s' \<Rightarrow> findTask ''a'' s')
     = Some [(''id'', JStr ''a''), (''completed'', JBool True),
             (''completedAt'', JStr ''2026-01-12T10:00:00.000Z'')]"
proof -
  let ?s = "Map.empty(''zenith_tasks'' \<mapsto>
       JArr [JObj [(''id'', JStr ''a''), (''completed'', JBool False), (''completedAt'', JNull)]])"
  let ?t = "[(''id'', JStr ''a''), (''completed'', JBool False), (''completedAt'', JNull)]"
  have f: "findTask ''a'' ?s = Some ?t"
    by (simp add: findTask_def getTasks_def Storage_get_def KEYS_TASKS_def)
  have d: "distinct (map fst ?t)" by simp
  note w = completedAt_stamped_once [OF f d, of True "''2026-01-12T10:00:00.000Z''" "[]"]
  show ?thesis
    using w f
    by (simp add: findTask_def getTasks_def Storage_get_def Storage_set_def KEYS_TASKS_def
        updateTask_def object_literal_def truthy_prop_def Let_def)
qed

lemma import_export_noop: "importData (Some (exportData s)) s' = (True, s')"
  by (simp add: importData_def exportData_def KEYS_def object_literal_def)

text \<open>
  Claim C1 does not hold of the code. The fields of the exported object are the property
  names of \<open>KEYS\<close> (\<open>USER\<close>, \<open>TASKS\<close>, ...), not the storage keys, while \<open>importData\<close>
  accepts only the storage keys (\<open>zenith_user\<close>, \<open>zenith_tasks\<close>, ...): importing an export
  writes nothing (\<open>import_export_noop\<close>). The theorem evaluates both at a store with one
  task: the export has no field \<open>zenith_tasks\<close>, and importing it into an empty store
  reports success and leaves the tasks absent, whereas an object keyed by the storage
  key is imported.
\<close>

theorem export_import_not_restored:
  "map fst (entries (exportData
      (Map.empty(''zenith_tasks'' \<mapsto> JArr [JObj [(''id'', JStr ''t1'')]]))))
     = [''USER'', ''TASKS'', ''HABITS'', ''GOALS'', ''TIME_BLOCKS'', ''DAILY_DATA'',
        ''WEEKLY_OBJECTIVES'', ''SETTINGS'', ''THEME'']
   \<and> get_prop (exportData (Map.empty(''zenith_tasks'' \<mapsto> JArr [JObj [(''id'', JStr ''t1'')]])))
        ''zenith_tasks'' = Inr None
   \<and> get_prop (exportData (Map.empty(''zenith_tasks'' \<mapsto> JArr [JObj [(''id'', JStr ''t1'')]])))
        ''TASKS'' = Inr (Some (JArr [JObj [(''id'', JStr ''t1'')]]))
   \<and> fst (importData
        (Some (exportData (Map.empty(''zenith_tasks'' \<mapsto> JArr [JObj [(''id'', JStr ''t1'')]]))))
        Map.empty) = True
   \<and> Storage_get (snd (importData
        (Some (exportData (Map.empty(''zenith_tasks'' \<mapsto> JArr [JObj [(''id'', JStr ''t1'')]]))))
        Map.empty)) ''zenith_tasks'' = JNull
   \<and> Storage_get (Map.empty(''zenith_tasks'' \<mapsto> JArr [JObj [(''id'', JStr ''t1'')]]))
        ''zenith_tasks'' = JArr [JObj [(''id'', JStr ''t1'')]]
   \<and> Storage_get (snd (importData
        (Some (JObj [(''zenith_tasks'', JArr [JObj [(''id'', JStr ''t1'')]]), (''other'', JNull)]))
        Map.empty)) ''zenith_tasks'' = JArr [JObj [(''id'', JStr ''t1'')]]"
  by (simp add: import_export_noop)
    (simp add: exportData_def importData_def KEYS_def object_literal_def Storage_get_def
      Storage_set_def)

section \<open>Capacity\<close>


























end
